theory Spec2Isabelle
  imports Main "HOL-Library.AList" "HOL-Library.Multiset" "HOL-Library.Char_ord"
    "HOL-Library.List_Lexorder" "HOL-Library.Product_Lexorder"
begin

text \<open>
  A shallow embedding of \<open>internal/helmscan/helmscan.go\<close>: the comparison of two scanned Helm
  charts (\<open>CompareHelmCharts\<close>, \<open>compareImageVulnerabilities\<close>) and the rendering of a
  comparison (\<open>generateMarkdownReport\<close>, \<open>sortAndFormatCVEs\<close>, \<open>generateJSONSeverityCounts\<close>,
  \<open>generateJSONImageChanges\<close>). Scanning, the calls of external programs, file output and
  the serialisation by \<open>json.MarshalIndent\<close> are not part of it.
\<close>

section \<open>Data model of package helmscan\<close>

text \<open>
  Modelled from the spec: the declaration of \<open>Vulnerability\<close> lives in the packages
  \<open>imageScan\<close> and \<open>reports\<close>, which are not part of the sources at hand. The code reads
  the fields \<open>ID\<close> and \<open>Severity\<close> (a string: it is the key of a \<open>map[string]int\<close>); the
  spec adds opaque metadata, kept here as one more string so that two findings with the
  same ID can still be told apart.
\<close>

record Vulnerability =
  ID :: string
  Severity :: string
  Metadata :: string

text \<open>
  A Go \<open>map[string]V\<close> is an association list read through \<open>map_of\<close> and written with
  \<open>AList.update\<close>. The list order is an artefact of the model: no definition below looks
  at it except through \<open>ranged\<close>, which asks the iteration order for it.
\<close>

type_synonym 'v gomap = "(string \<times> 'v) list"

text \<open>
  Go leaves the order of \<open>for k, v := range m\<close> unspecified and chooses it anew each time
  a range statement is executed. The order of one execution is an \<open>iteration\<close>: a function
  that rearranges the list of keys, of which \<open>iteration_order\<close> asks that it neither drops
  nor repeats a key. Every function that ranges over maps takes a family of them,
  \<open>iterations\<close>, one for each execution of a range statement. An execution is named by the
  line of the statement in \<open>helmscan.go\<close> and, where the statement stands inside a loop, by
  the key (or the slice position) that the enclosing loop is at, so that no two executions
  within one call share a name.
\<close>

type_synonym iteration = "string list \<Rightarrow> string list"

type_synonym iterations = "string list \<Rightarrow> iteration"

definition iteration_order :: "iteration \<Rightarrow> bool" where
  "iteration_order ord \<longleftrightarrow> (\<forall>ks. distinct ks \<longrightarrow> distinct (ord ks) \<and> set (ord ks) = set ks)"

definition iteration_orders :: "iterations \<Rightarrow> bool" where
  "iteration_orders ord \<longleftrightarrow> (\<forall>l. iteration_order (ord l))"

text \<open>The iterations of a callee that is called from the line \<open>l\<close>.\<close>

definition within :: "string \<Rightarrow> iterations \<Rightarrow> iterations" where
  "within l ord = (\<lambda>p. ord (l # p))"

definition keys :: "'v gomap \<Rightarrow> string list" where
  "keys m = remdups (map fst m)"

definition ranged :: "iteration \<Rightarrow> 'v gomap \<Rightarrow> (string \<times> 'v) list" where
  "ranged ord m =
     concat (map (\<lambda>k. case map_of m k of None \<Rightarrow> [] | Some v \<Rightarrow> [(k, v)]) (ord (keys m)))"

text \<open>
  \<open>ContainerImage\<close>: the field \<open>ScanResult\<close> (of the absent type \<open>imageScan.ScanResult\<close>) is
  read by none of the functions below and is left out. \<open>Vulnerabilities\<close> may be the nil
  map (\<open>None\<close>), as \<open>parseImageString\<close> leaves it; reading a nil map in Go behaves as
  reading an empty one, which is what \<open>vulns\<close> does.
\<close>

record ContainerImage =
  Repository :: string
  Tag :: string
  ImageName :: string
  Vulnerabilities :: "Vulnerability gomap option"

definition vulns :: "ContainerImage \<Rightarrow> Vulnerability gomap" where
  "vulns img = (case Vulnerabilities img of None \<Rightarrow> [] | Some m \<Rightarrow> m)"

text \<open>
  \<open>ContainsImages\<close> is a slice of pointers; \<open>None\<close> is the nil pointer, which \<open>Scan\<close>
  leaves in the slot of an image whose scan failed.
\<close>

record HelmChart =
  Name :: string
  Version :: string
  HelmRepo :: string
  ContainsImages :: "ContainerImage option list"

record HelmComparison =
  Before :: HelmChart
  After :: HelmChart
  AddedImages :: "ContainerImage option list gomap"
  RemovedImages :: "ContainerImage option list gomap"
  ChangedImages :: "ContainerImage option list gomap"
  UnChangedImages :: "ContainerImage option list gomap"
  RemovedCVEs :: "Vulnerability gomap gomap"
  AddedCVEs :: "Vulnerability gomap gomap"
  UnchangedCVEs :: "Vulnerability gomap gomap"

datatype panic = NilPointerDereference | IndexOutOfRange

section \<open>CompareHelmCharts\<close>

text \<open>
  \<open>if _, exists := m[id]; !exists { m[id] = make(...) }; m[id][name] = vuln\<close>: the inner
  map is created on first use, then written. Lines 201-207 and 215-221 of the source spell
  the same two cases out in both branches of the \<open>if\<close>.
\<close>

definition put2 :: "'v gomap gomap \<Rightarrow> string \<Rightarrow> string \<Rightarrow> 'v \<Rightarrow> 'v gomap gomap" where
  "put2 m i n v =
     (case map_of m i of
        None \<Rightarrow> AList.update i (AList.update n v []) m
      | Some inner \<Rightarrow> AList.update i (AList.update n v inner) m)"

definition lookup2 :: "'v gomap gomap \<Rightarrow> string \<Rightarrow> string \<Rightarrow> 'v option" where
  "lookup2 m i n = (case map_of m i of None \<Rightarrow> None | Some inner \<Rightarrow> map_of inner n)"

definition compareImageVulnerabilities ::
  "iterations \<Rightarrow> ContainerImage \<Rightarrow> ContainerImage \<Rightarrow> HelmComparison \<Rightarrow> HelmComparison" where
  "compareImageVulnerabilities ord before after comparison =
     (let c1 = fold (\<lambda>(i, vuln) c.
                  if map_of (vulns after) i = None
                  then c\<lparr>RemovedCVEs := put2 (RemovedCVEs c) i (ImageName before) vuln\<rparr>
                  else c\<lparr>UnchangedCVEs := put2 (UnchangedCVEs c) i (ImageName before) vuln\<rparr>)
                (ranged (ord [''230'', ImageName before]) (vulns before)) comparison
      in fold (\<lambda>(i, vuln) c.
                  if map_of (vulns before) i = None
                  then c\<lparr>AddedCVEs := put2 (AddedCVEs c) i (ImageName after) vuln\<rparr>
                  else c)
                (ranged (ord [''244'', ImageName after]) (vulns after)) c1)"

text \<open>
  The two indexing loops (lines 177-183). \<open>img.ImageName\<close> dereferences the pointer, so a
  nil entry panics. Only pointers that were dereferenced are stored; the index holds the
  image itself.
\<close>

fun indexImages ::
  "ContainerImage option list \<Rightarrow> ContainerImage gomap \<Rightarrow> panic + ContainerImage gomap" where
  "indexImages [] m = Inr m"
| "indexImages (None # imgs) m = Inl NilPointerDereference"
| "indexImages (Some img # imgs) m = indexImages imgs (AList.update (ImageName img) img m)"

text \<open>The body of the loop over \<open>beforeImages\<close> (lines 185-210).\<close>

definition beforeStep ::
  "iterations \<Rightarrow> ContainerImage gomap \<Rightarrow> string \<times> ContainerImage \<Rightarrow> HelmComparison \<Rightarrow> HelmComparison" where
  "beforeStep ord afterImages = (\<lambda>(name, beforeImg) comparison.
     (case map_of afterImages name of
        Some afterImg \<Rightarrow>
          if Tag beforeImg \<noteq> Tag afterImg
          then compareImageVulnerabilities ord beforeImg afterImg
                 (comparison\<lparr>ChangedImages :=
                    AList.update name [Some beforeImg, Some afterImg] (ChangedImages comparison)\<rparr>)
          else fold (\<lambda>(i, vuln) c. c\<lparr>UnchangedCVEs := put2 (UnchangedCVEs c) i name vuln\<rparr>)
                 (ranged (ord [''192'', name]) (vulns beforeImg))
                 (comparison\<lparr>UnChangedImages :=
                    AList.update name [Some beforeImg, Some afterImg] (UnChangedImages comparison)\<rparr>)
      | None \<Rightarrow>
          fold (\<lambda>(i, vuln) c. c\<lparr>RemovedCVEs := put2 (RemovedCVEs c) i name vuln\<rparr>)
            (ranged (ord [''201'', name]) (vulns beforeImg))
            (comparison\<lparr>RemovedImages :=
               AList.update name [Some beforeImg] (RemovedImages comparison)\<rparr>)))"

text \<open>The body of the loop over \<open>afterImages\<close> (lines 212-224).\<close>

definition afterStep ::
  "iterations \<Rightarrow> ContainerImage gomap \<Rightarrow> string \<times> ContainerImage \<Rightarrow> HelmComparison \<Rightarrow> HelmComparison" where
  "afterStep ord beforeImages = (\<lambda>(name, afterImg) comparison.
     (case map_of beforeImages name of
        None \<Rightarrow>
          fold (\<lambda>(i, vuln) c. c\<lparr>AddedCVEs := put2 (AddedCVEs c) i name vuln\<rparr>)
            (ranged (ord [''215'', name]) (vulns afterImg))
            (comparison\<lparr>AddedImages :=
               AList.update name [Some afterImg] (AddedImages comparison)\<rparr>)
      | Some _ \<Rightarrow> comparison))"

definition emptyComparison :: "HelmChart \<Rightarrow> HelmChart \<Rightarrow> HelmComparison" where
  "emptyComparison before after =
     \<lparr>Before = before, After = after,
      AddedImages = [], RemovedImages = [], ChangedImages = [], UnChangedImages = [],
      RemovedCVEs = [], AddedCVEs = [], UnchangedCVEs = []\<rparr>"

definition compareIndexed ::
  "iterations \<Rightarrow> ContainerImage gomap \<Rightarrow> ContainerImage gomap \<Rightarrow> HelmComparison \<Rightarrow> HelmComparison" where
  "compareIndexed ord beforeImages afterImages comparison =
     fold (afterStep ord beforeImages) (ranged (ord [''212'']) afterImages)
       (fold (beforeStep ord afterImages) (ranged (ord [''185'']) beforeImages) comparison)"

definition CompareHelmCharts :: "iterations \<Rightarrow> HelmChart \<Rightarrow> HelmChart \<Rightarrow> panic + HelmComparison" where
  "CompareHelmCharts ord before after =
     (case indexImages (ContainsImages before) [] of
        Inl p \<Rightarrow> Inl p
      | Inr beforeImages \<Rightarrow>
          (case indexImages (ContainsImages after) [] of
             Inl p \<Rightarrow> Inl p
           | Inr afterImages \<Rightarrow>
               Inr (compareIndexed ord beforeImages afterImages (emptyComparison before after))))"

section \<open>Notions used to state the properties\<close>

text \<open>\<open>_, exists := m[k]\<close>.\<close>

definition hasKey :: "'v gomap \<Rightarrow> string \<Rightarrow> bool" where
  "hasKey m k \<longleftrightarrow> map_of m k \<noteq> None"

text \<open>The non-nil entries of a chart's slice, and the names that occur in it.\<close>

definition images :: "HelmChart \<Rightarrow> ContainerImage list" where
  "images chart = concat (map (\<lambda>p. case p of None \<Rightarrow> [] | Some img \<Rightarrow> [img]) (ContainsImages chart))"

definition imageNames :: "HelmChart \<Rightarrow> string set" where
  "imageNames chart = ImageName ` set (images chart)"

text \<open>
  The last entry of the slice that carries the name \<open>n\<close>: the indexing loop overwrites
  earlier entries of the same name.
\<close>

fun lastNamed :: "string \<Rightarrow> ContainerImage option list \<Rightarrow> ContainerImage option" where
  "lastNamed n [] = None"
| "lastNamed n (p # ps) =
     (case lastNamed n ps of
        Some img \<Rightarrow> Some img
      | None \<Rightarrow> (case p of None \<Rightarrow> None
                | Some img \<Rightarrow> if ImageName img = n then Some img else None))"

text \<open>Every image stored in an index is stored under its own name.\<close>

definition named :: "ContainerImage gomap \<Rightarrow> bool" where
  "named idx \<longleftrightarrow> (\<forall>k img. map_of idx k = Some img \<longrightarrow> ImageName img = k)"

text \<open>The loop \<open>for i, v := range es { if P i { m[i][n] = v } }\<close> on one nested map.\<close>

definition putAll ::
  "(string \<Rightarrow> bool) \<Rightarrow> string \<Rightarrow> (string \<times> 'v) list \<Rightarrow> 'v gomap gomap \<Rightarrow> 'v gomap gomap" where
  "putAll P n es m = fold (\<lambda>(i, v) m. if P i then put2 m i n v else m) es m"

text \<open>An entry \<open>m[i][n]\<close> of a nested map.\<close>

definition hasEntry :: "'v gomap gomap \<Rightarrow> string \<Rightarrow> string \<Rightarrow> bool" where
  "hasEntry m i n \<longleftrightarrow> lookup2 m i n \<noteq> None"

text \<open>The chart whose nil vulnerability maps are replaced by empty maps.\<close>

definition withEmptyMaps :: "HelmChart \<Rightarrow> HelmChart" where
  "withEmptyMaps chart =
     chart\<lparr>ContainsImages :=
       map (map_option (\<lambda>img. img\<lparr>Vulnerabilities := Some (vulns img)\<rparr>)) (ContainsImages chart)\<rparr>"

section \<open>Formatting\<close>

text \<open>
  \<open>fmt.Sprintf\<close> with the verbs \<open>%d\<close> and \<open>%+d\<close>: decimal digits, a minus sign for a
  negative number, and with the flag \<open>+\<close> a plus sign otherwise. \<open>%s\<close> is concatenation.
\<close>

definition digit :: "nat \<Rightarrow> char" where
  "digit d = ''0123456789'' ! d"

function digits :: "nat \<Rightarrow> string" where
  "digits n = (if n < 10 then [digit n] else digits (n div 10) @ [digit (n mod 10)])"
  by pat_completeness auto
termination
  by (relation "measure (\<lambda>n. n)") auto

declare digits.simps [simp del]

definition fmt_d :: "int \<Rightarrow> string" where
  "fmt_d i = (if i < 0 then CHR ''-'' # digits (nat (- i)) else digits (nat i))"

definition fmt_plus_d :: "int \<Rightarrow> string" where
  "fmt_plus_d i = (if i < 0 then CHR ''-'' # digits (nat (- i)) else CHR ''+'' # digits (nat i))"

text \<open>\<open>strings.Join\<close>.\<close>

fun Join :: "string list \<Rightarrow> string \<Rightarrow> string" where
  "Join [] sep = []"
| "Join [s] sep = s"
| "Join (s # t # ss) sep = s @ sep @ Join (t # ss) sep"

section \<open>Reports\<close>

text \<open>Reading a key that is absent from a \<open>map[string]int\<close> yields 0; \<open>m[k]++\<close>.
  A count never exceeds the number of map entries held in memory, so the 64-bit \<open>int\<close>
  of the source cannot wrap and is an \<open>int\<close> here.\<close>

definition count :: "int gomap \<Rightarrow> string \<Rightarrow> int" where
  "count m k = (case map_of m k of None \<Rightarrow> 0 | Some n \<Rightarrow> n)"

definition incr :: "int gomap \<Rightarrow> string \<Rightarrow> int gomap" where
  "incr m k = AList.update k (count m k + 1) m"

text \<open>
  The counting loops of \<open>generateMarkdownReport\<close> (lines 390-399) and of
  \<open>generateJSONSeverityCounts\<close> (lines 529-538), which are the same text.
  \<open>img.Vulnerabilities\<close> dereferences the image pointer. The inner range statement
  stands at the line \<open>line\<close>; \<open>k\<close> is the position in the slice of the image that the outer
  loop is at, which names the execution of the inner one.
\<close>

fun countSeverities ::
  "iterations \<Rightarrow> string \<Rightarrow> nat \<Rightarrow> ContainerImage option list \<Rightarrow> int gomap \<Rightarrow> panic + int gomap" where
  "countSeverities ord line k [] counts = Inr counts"
| "countSeverities ord line k (None # imgs) counts = Inl NilPointerDereference"
| "countSeverities ord line k (Some img # imgs) counts =
     countSeverities ord line (Suc k) imgs
       (fold (\<lambda>(_, vuln) m. incr m (Severity vuln)) (ranged (ord [line, digits k]) (vulns img)) counts)"

definition severities :: "string list" where
  "severities = [''critical'', ''high'', ''medium'', ''low'']"

text \<open>\<open>reports.SeverityCount\<close>, with the fields its literal in \<open>generateJSONSeverityCounts\<close>
  sets (the field \<open>Severity\<close> is \<open>SeverityLabel\<close> here: the name is taken).\<close>

record SeverityCount =
  SeverityLabel :: string
  Current :: int
  Previous :: int
  Difference :: int

definition generateJSONSeverityCounts :: "iterations \<Rightarrow> HelmComparison \<Rightarrow> panic + SeverityCount list" where
  "generateJSONSeverityCounts ord comparison =
     (case countSeverities ord ''530'' 0 (ContainsImages (Before comparison)) [] of
        Inl p \<Rightarrow> Inl p
      | Inr prevCounts \<Rightarrow>
          (case countSeverities ord ''535'' 0 (ContainsImages (After comparison)) [] of
             Inl p \<Rightarrow> Inl p
           | Inr currentCounts \<Rightarrow>
               Inr (map (\<lambda>severity.
                      let current = count currentCounts severity;
                          previous = count prevCounts severity
                      in \<lparr>SeverityLabel = severity, Current = current, Previous = previous,
                          Difference = current - previous\<rparr>) severities)))"

text \<open>\<open>images[k].Field\<close>: the index is checked, then the pointer is dereferenced.\<close>

definition elem :: "ContainerImage option list \<Rightarrow> nat \<Rightarrow> panic + ContainerImage" where
  "elem imgs k =
     (if k < length imgs
      then (case imgs ! k of None \<Rightarrow> Inl NilPointerDereference | Some img \<Rightarrow> Inr img)
      else Inl IndexOutOfRange)"

text \<open>A loop that appends one item per element, where computing the item may panic.\<close>

fun collect :: "('a \<Rightarrow> panic + 'b) \<Rightarrow> 'a list \<Rightarrow> panic + 'b list" where
  "collect f [] = Inr []"
| "collect f (x # xs) =
     (case f x of
        Inl p \<Rightarrow> Inl p
      | Inr y \<Rightarrow> (case collect f xs of Inl p \<Rightarrow> Inl p | Inr ys \<Rightarrow> Inr (y # ys)))"

text \<open>\<open>reports.ImageChange\<close>, with the fields its literals in \<open>generateJSONImageChanges\<close> set
  (\<open>Name\<close> is \<open>ChangeName\<close> here). A field that a literal leaves out is the empty string.\<close>

record ImageChange =
  ChangeName :: string
  Status :: string
  BeforeRepo :: string
  AfterRepo :: string
  BeforeTag :: string
  AfterTag :: string

definition jsonAdded :: "string \<times> ContainerImage option list \<Rightarrow> panic + ImageChange" where
  "jsonAdded = (\<lambda>(name, images).
     case elem images 0 of Inl p \<Rightarrow> Inl p
     | Inr i0 \<Rightarrow> Inr \<lparr>ChangeName = name, Status = ''Added'', BeforeRepo = [],
                     AfterRepo = Repository i0, BeforeTag = [], AfterTag = Tag i0\<rparr>)"

definition jsonRemoved :: "string \<times> ContainerImage option list \<Rightarrow> panic + ImageChange" where
  "jsonRemoved = (\<lambda>(name, images).
     case elem images 0 of Inl p \<Rightarrow> Inl p
     | Inr i0 \<Rightarrow> Inr \<lparr>ChangeName = name, Status = ''Removed'', BeforeRepo = Repository i0,
                     AfterRepo = [], BeforeTag = Tag i0, AfterTag = []\<rparr>)"

definition jsonChanged :: "string \<times> ContainerImage option list \<Rightarrow> panic + ImageChange" where
  "jsonChanged = (\<lambda>(name, images).
     case elem images 0 of Inl p \<Rightarrow> Inl p
     | Inr i0 \<Rightarrow>
        (case elem images 1 of Inl p \<Rightarrow> Inl p
         | Inr i1 \<Rightarrow> Inr \<lparr>ChangeName = name, Status = ''Changed'', BeforeRepo = Repository i0,
                         AfterRepo = Repository i1, BeforeTag = Tag i0, AfterTag = Tag i1\<rparr>))"

definition jsonUnchanged :: "string \<times> ContainerImage option list \<Rightarrow> panic + ImageChange" where
  "jsonUnchanged = (\<lambda>(name, images).
     case elem images 0 of Inl p \<Rightarrow> Inl p
     | Inr i0 \<Rightarrow> Inr \<lparr>ChangeName = name, Status = ''Unchanged'', BeforeRepo = Repository i0,
                     AfterRepo = Repository i0, BeforeTag = Tag i0, AfterTag = Tag i0\<rparr>)"

text \<open>Four loops appending to one slice: the first panic, in the order of the loops, ends
  the call.\<close>

definition generateJSONImageChanges :: "iterations \<Rightarrow> HelmComparison \<Rightarrow> panic + ImageChange list" where
  "generateJSONImageChanges ord comparison =
     (case collect jsonAdded (ranged (ord [''558'']) (AddedImages comparison)) of Inl p \<Rightarrow> Inl p
      | Inr added \<Rightarrow>
     (case collect jsonRemoved (ranged (ord [''568'']) (RemovedImages comparison)) of Inl p \<Rightarrow> Inl p
      | Inr removed \<Rightarrow>
     (case collect jsonChanged (ranged (ord [''578'']) (ChangedImages comparison)) of Inl p \<Rightarrow> Inl p
      | Inr changed \<Rightarrow>
     (case collect jsonUnchanged (ranged (ord [''590'']) (UnChangedImages comparison)) of Inl p \<Rightarrow> Inl p
      | Inr unchanged \<Rightarrow> Inr (added @ removed @ changed @ unchanged)))))"

subsection \<open>Markdown\<close>

text \<open>
  \<open>generateMarkdownReport\<close> is one long function; its parts are named here in the order of
  its text: the rows of the images table (lines 416-436), the severity table (lines
  382-409), and the CVE tables of \<open>sortAndFormatCVEs\<close>.
\<close>

definition mdAdded :: "string \<times> ContainerImage option list \<Rightarrow> panic + string" where
  "mdAdded = (\<lambda>(name, images).
     case elem images 0 of Inl p \<Rightarrow> Inl p
     | Inr i0 \<Rightarrow> Inr (''| '' @ name @ '' | Added | - | '' @ Repository i0 @ '' | - | '' @ Tag i0 @ '' |''))"

definition mdRemoved :: "string \<times> ContainerImage option list \<Rightarrow> panic + string" where
  "mdRemoved = (\<lambda>(name, images).
     case elem images 0 of Inl p \<Rightarrow> Inl p
     | Inr i0 \<Rightarrow> Inr (''| '' @ name @ '' | Removed | '' @ Repository i0 @ '' | - | '' @ Tag i0 @ '' | - |''))"

text \<open>The arguments of \<open>Sprintf\<close> are evaluated from left to right: \<open>images[0].Repository\<close>,
  \<open>images[1].Repository\<close>, \<open>images[0].Tag\<close>, \<open>images[1].Tag\<close>.\<close>

definition mdPair :: "string \<Rightarrow> string \<times> ContainerImage option list \<Rightarrow> panic + string" where
  "mdPair status = (\<lambda>(name, images).
     case elem images 0 of Inl p \<Rightarrow> Inl p
     | Inr i0 \<Rightarrow>
        (case elem images 1 of Inl p \<Rightarrow> Inl p
         | Inr i1 \<Rightarrow> Inr (''| '' @ name @ '' | '' @ status @ '' | '' @ Repository i0 @ '' | ''
                          @ Repository i1 @ '' | '' @ Tag i0 @ '' | '' @ Tag i1 @ '' |'')))"

definition markdownImageRows :: "iterations \<Rightarrow> HelmComparison \<Rightarrow> panic + string list" where
  "markdownImageRows ord comparison =
     (case collect mdAdded (ranged (ord [''418'']) (AddedImages comparison)) of Inl p \<Rightarrow> Inl p
      | Inr added \<Rightarrow>
     (case collect mdRemoved (ranged (ord [''423'']) (RemovedImages comparison)) of Inl p \<Rightarrow> Inl p
      | Inr removed \<Rightarrow>
     (case collect (mdPair ''Changed'') (ranged (ord [''428'']) (ChangedImages comparison)) of Inl p \<Rightarrow> Inl p
      | Inr changed \<Rightarrow>
     (case collect (mdPair ''Unchanged'') (ranged (ord [''433'']) (UnChangedImages comparison)) of Inl p \<Rightarrow> Inl p
      | Inr unchanged \<Rightarrow> Inr (added @ removed @ changed @ unchanged)))))"

definition markdownSeverityRow :: "int gomap \<Rightarrow> int gomap \<Rightarrow> string \<Rightarrow> string" where
  "markdownSeverityRow currentCounts prevCounts severity =
     (let count' = count currentCounts severity;
          prevCount = count prevCounts severity;
          difference = count' - prevCount;
          differenceStr = fmt_plus_d difference
      in ''| '' @ severity @ '' | '' @ fmt_d count' @ '' | '' @ fmt_d prevCount @ '' | ''
           @ differenceStr @ '' |\<newline>'')"

definition markdownSeverityTable :: "iterations \<Rightarrow> HelmComparison \<Rightarrow> panic + string" where
  "markdownSeverityTable ord comparison =
     (case countSeverities ord ''391'' 0 (ContainsImages (Before comparison)) [] of
        Inl p \<Rightarrow> Inl p
      | Inr prevCounts \<Rightarrow>
          (case countSeverities ord ''396'' 0 (ContainsImages (After comparison)) [] of
             Inl p \<Rightarrow> Inl p
           | Inr currentCounts \<Rightarrow>
               Inr (''### CVE by Severity\<newline>\<newline>''
                    @ ''| Severity | Count | Prev Count | Difference |\<newline>''
                    @ ''|----------|-------|------------|------------|\<newline>''
                    @ concat (map (markdownSeverityRow currentCounts prevCounts) severities)
                    @ ''\<newline>\<newline>'')))"

text \<open>
  Modelled from the spec: \<open>reports.SortableCVE\<close>, \<open>reports.SortableCVEList\<close> and the method
  \<open>GetSeverity\<close> belong to the absent package \<open>reports\<close>. The literal in
  \<open>sortAndFormatCVEs\<close> gives the fields; the spec gives the order that \<open>sort.Sort\<close> is to
  produce: severity rank first (critical, high, medium, low, then anything else), CVE ID in
  ascending byte order second. \<open>GetSeverity\<close> is taken to read the field \<open>Severity\<close>.
\<close>

datatype SortableCVE = SortableCVE (cveID: string) (cveSeverity: string) (cveImages: "string list")

definition GetSeverity :: "Vulnerability \<Rightarrow> string" where
  "GetSeverity vuln = Severity vuln"

definition severityRank :: "string \<Rightarrow> nat" where
  "severityRank s =
     (if s = ''critical'' then 0 else if s = ''high'' then 1 else if s = ''medium'' then 2
      else if s = ''low'' then 3 else 4)"

fun stringLess :: "string \<Rightarrow> string \<Rightarrow> bool" where
  "stringLess [] [] = False"
| "stringLess [] (y # ys) = True"
| "stringLess (x # xs) [] = False"
| "stringLess (x # xs) (y # ys) =
     ((of_char x :: nat) < of_char y \<or> (x = y \<and> stringLess xs ys))"

definition cveLess :: "SortableCVE \<Rightarrow> SortableCVE \<Rightarrow> bool" where
  "cveLess a b \<longleftrightarrow>
     severityRank (cveSeverity a) < severityRank (cveSeverity b)
     \<or> (severityRank (cveSeverity a) = severityRank (cveSeverity b) \<and> stringLess (cveID a) (cveID b))"

fun insertCVE :: "SortableCVE \<Rightarrow> SortableCVE list \<Rightarrow> SortableCVE list" where
  "insertCVE c [] = [c]"
| "insertCVE c (d # ds) = (if cveLess d c then d # insertCVE c ds else c # d # ds)"

definition sortCVEs :: "SortableCVE list \<Rightarrow> SortableCVE list" where
  "sortCVEs cs = foldr insertCVE cs []"

definition cveTableHeader :: string where
  "cveTableHeader =
     ''| CVE ID | Severity | Affected Images |\<newline>'' @ ''|--------|----------|------------------|\<newline>''"

text \<open>
  \<open>sortAndFormatCVEs\<close> in its three steps: the loop that builds one \<open>SortableCVE\<close> per CVE ID
  (lines 485-498), \<open>sort.Sort\<close> (line 500), and the loop that writes the rows with a heading
  at every change of severity (lines 502-519). In the first loop \<open>severity\<close> is assigned for
  every image, so the finding of the image that is iterated last gives the severity of the
  row. \<open>strings.Title\<close> works on Unicode runes with the tables of package \<open>unicode\<close>; it is
  the parameter \<open>title\<close>.
\<close>

definition collectCVEs :: "iterations \<Rightarrow> Vulnerability gomap gomap \<Rightarrow> SortableCVE list" where
  "collectCVEs ord cves =
     map (\<lambda>(cveID, imageVulns).
            let (images, severity) =
                  fold (\<lambda>(imageName, vuln) (images, severity).
                          (images @ [imageName], GetSeverity vuln))
                    (ranged (ord [''489'', cveID]) imageVulns) ([], [])
            in SortableCVE cveID severity images)
       (ranged (ord [''486'']) cves)"

definition formatCVEs :: "(string \<Rightarrow> string) \<Rightarrow> SortableCVE list \<Rightarrow> string" where
  "formatCVEs title sortedCVEs =
     snd (fold (\<lambda>cve (currentSeverity, sb).
            let (currentSeverity, sb) =
                  (if cveSeverity cve \<noteq> currentSeverity
                   then (cveSeverity cve,
                         sb @ (if currentSeverity \<noteq> [] then ''\<newline>'' else [])
                            @ ''#### '' @ title (cveSeverity cve) @ ''\<newline>'' @ cveTableHeader)
                   else (currentSeverity, sb))
            in (currentSeverity,
                sb @ ''| '' @ cveID cve @ '' | '' @ cveSeverity cve @ '' | ''
                   @ Join (cveImages cve) '', '' @ '' |\<newline>''))
          sortedCVEs ([], cveTableHeader))"

definition sortAndFormatCVEs ::
  "(string \<Rightarrow> string) \<Rightarrow> iterations \<Rightarrow> Vulnerability gomap gomap \<Rightarrow> string" where
  "sortAndFormatCVEs title ord cves =
     (if length (keys cves) = 0 then ''No CVEs found.\<newline>\<newline>''
      else formatCVEs title (sortCVEs (collectCVEs ord cves)))"

definition generateMarkdownReport ::
  "(string \<Rightarrow> string) \<Rightarrow> iterations \<Rightarrow> HelmComparison \<Rightarrow> panic + string" where
  "generateMarkdownReport title ord comparison =
     (case markdownSeverityTable ord comparison of
        Inl p \<Rightarrow> Inl p
      | Inr severityTable \<Rightarrow>
          (case markdownImageRows ord comparison of
             Inl p \<Rightarrow> Inl p
           | Inr imageRows \<Rightarrow>
               Inr (''## Helm Chart Comparison Report ''
                    @ HelmRepo (Before comparison) @ ''/'' @ Name (Before comparison) @ ''@''
                    @ Version (Before comparison) @ '' to ''
                    @ HelmRepo (After comparison) @ ''/'' @ Name (After comparison) @ ''@''
                    @ Version (After comparison) @ ''\<newline>\<newline>''
                    @ severityTable
                    @ ''### Images\<newline>\<newline>''
                    @ ''| Image Name | Status | Before Repo | After Repo | Before Tag | After Tag |\<newline>''
                    @ ''|------------|--------|-------------|------------|------------|-----------|\<newline>''
                    @ Join imageRows ''\<newline>'' @ ''\<newline>\<newline>''
                    @ ''### Unchanged CVEs\<newline>\<newline>''
                    @ sortAndFormatCVEs title (within ''443'' ord) (UnchangedCVEs comparison)
                    @ ''\<newline>\<newline>''
                    @ ''### Added CVEs\<newline>\<newline>''
                    @ sortAndFormatCVEs title (within ''447'' ord) (AddedCVEs comparison)
                    @ ''\<newline>\<newline>''
                    @ ''### Removed CVEs\<newline>\<newline>''
                    @ sortAndFormatCVEs title (within ''451'' ord) (RemovedCVEs comparison)
                    @ ''\<newline>'')))"

section \<open>Notions used to state the properties of the reports\<close>

text \<open>
  The number of findings of severity \<open>s\<close> in one image, and in all images of a chart: an
  image contributes one per entry of its own map, so an ID found in two images counts
  twice.
\<close>

definition findings :: "string \<Rightarrow> ContainerImage \<Rightarrow> int" where
  "findings s img =
     int (length (filter (\<lambda>k. map_option Severity (map_of (vulns img) k) = Some s) (keys (vulns img))))"

definition countBySeverity :: "HelmChart \<Rightarrow> string \<Rightarrow> int" where
  "countBySeverity chart s = sum_list (map (findings s) (images chart))"

text \<open>
  The key by which the rows of a CVE table are sorted, in the product order of the ranks and
  the byte order of the IDs.
\<close>

definition cveKey :: "SortableCVE \<Rightarrow> nat \<times> string" where
  "cveKey r = (severityRank (cveSeverity r), cveID r)"

text \<open>
  The row that the first loop of \<open>sortAndFormatCVEs\<close> builds for one CVE ID: the names of
  the inner map in the order they are ranged over, and the severity of the finding that is
  ranged over last (the empty string for an empty map).
\<close>

definition mkRow :: "iterations \<Rightarrow> string \<times> Vulnerability gomap \<Rightarrow> SortableCVE" where
  "mkRow ord = (\<lambda>(i, inner).
     SortableCVE i
       (if ranged (ord [''489'', i]) inner = [] then []
        else GetSeverity (snd (last (ranged (ord [''489'', i]) inner))))
       (map fst (ranged (ord [''489'', i]) inner)))"

text \<open>All findings recorded for one CVE ID carry the same severity.\<close>

definition uniformSeverity :: "Vulnerability gomap gomap \<Rightarrow> bool" where
  "uniformSeverity cves \<longleftrightarrow>
     (\<forall>i inner n v n' w. map_of cves i = Some inner \<and> map_of inner n = Some v \<and>
        map_of inner n' = Some w \<longrightarrow> GetSeverity v = GetSeverity w)"

text \<open>
  What the rows of a CVE table are, given the map and the iterations: sorted by the key, one
  row for each CVE ID of the map, the names under \<open>Affected Images\<close> in the order in which
  the inner map is ranged over, the severity that of the finding ranged over last.
\<close>

definition cveRowsFrom :: "iterations \<Rightarrow> Vulnerability gomap gomap \<Rightarrow> SortableCVE list \<Rightarrow> bool" where
  "cveRowsFrom ord cves rows \<longleftrightarrow>
     sorted_wrt cveLess rows \<and>
     mset (map cveID rows) = mset (keys cves) \<and>
     (\<forall>r \<in> set rows. \<exists>inner.
        map_of cves (cveID r) = Some inner \<and>
        cveImages r = map fst (ranged (ord [''489'', cveID r]) inner) \<and>
        (inner \<noteq> [] \<longrightarrow>
           cveSeverity r = GetSeverity (snd (last (ranged (ord [''489'', cveID r]) inner)))))"

text \<open>
  Two lists of rows agree on the IDs and severities, row by row, and on the names of every
  row up to their order.
\<close>

definition cveRowsAgree :: "SortableCVE list \<Rightarrow> SortableCVE list \<Rightarrow> bool" where
  "cveRowsAgree rows1 rows2 \<longleftrightarrow>
     map cveID rows1 = map cveID rows2 \<and>
     map cveSeverity rows1 = map cveSeverity rows2 \<and>
     map (\<lambda>r. mset (cveImages r)) rows1 = map (\<lambda>r. mset (cveImages r)) rows2"

section \<open>Example charts\<close>

definition image :: "string \<Rightarrow> string \<Rightarrow> string \<Rightarrow> Vulnerability list \<Rightarrow> ContainerImage" where
  "image repo name tag vs =
     \<lparr>Repository = repo, Tag = tag, ImageName = name,
      Vulnerabilities = Some (map (\<lambda>v. (ID v, v)) vs)\<rparr>"

definition cve :: "string \<Rightarrow> string \<Rightarrow> Vulnerability" where
  "cve i s = \<lparr>ID = i, Severity = s, Metadata = []\<rparr>"

definition exampleBefore :: HelmChart where
  "exampleBefore =
     \<lparr>Name = ''shop'', Version = ''1.0'', HelmRepo = ''repo'',
      ContainsImages =
        [Some (image ''docker.io'' ''app'' ''v1'' [cve ''CVE-1'' ''high'', cve ''CVE-7'' ''medium'']),
         Some (image ''docker.io'' ''sidecar'' ''v1'' [cve ''CVE-9'' ''low'']),
         Some (image ''docker.io'' ''db'' ''v5'' [cve ''CVE-3'' ''medium''])]\<rparr>"

definition exampleAfter :: HelmChart where
  "exampleAfter =
     \<lparr>Name = ''shop'', Version = ''2.0'', HelmRepo = ''repo'',
      ContainsImages =
        [Some (image ''docker.io'' ''app'' ''v2''
                 [(cve ''CVE-1'' ''high'')\<lparr>Metadata := ''rescan''\<rparr>, cve ''CVE-2'' ''critical'']),
         Some (image ''ghcr.io'' ''db'' ''v5'' [cve ''CVE-4'' ''low'']),
         Some (image ''docker.io'' ''web'' ''v1'' [cve ''CVE-1'' ''high''])]\<rparr>"

text \<open>A chart that names one image twice, the second time with a nil vulnerability map.\<close>

definition exampleMalformed :: HelmChart where
  "exampleMalformed =
     \<lparr>Name = ''shop'', Version = ''0.9'', HelmRepo = ''repo'',
      ContainsImages =
        [Some (image ''docker.io'' ''app'' ''v1'' [cve ''CVE-1'' ''high'']),
         Some \<lparr>Repository = ''docker.io'', Tag = ''v3'', ImageName = ''app'',
               Vulnerabilities = None\<rparr>]\<rparr>"

text \<open>A chart without images.\<close>

definition exampleNone :: HelmChart where
  "exampleNone = \<lparr>Name = ''shop'', Version = ''3.0'', HelmRepo = ''repo'', ContainsImages = []\<rparr>"


text \<open>
  Two charts of two images that share the finding \<open>CVE-1\<close>: with different severities in
  the first chart, with the same severity in the second.
\<close>

definition exampleShared :: HelmChart where
  "exampleShared =
     \<lparr>Name = ''shop'', Version = ''0.1'', HelmRepo = ''repo'',
      ContainsImages =
        [Some (image ''r'' ''a'' ''v1'' [cve ''CVE-1'' ''high'']),
         Some (image ''r'' ''b'' ''v1'' [cve ''CVE-1'' ''low'', cve ''CVE-5'' ''medium''])]\<rparr>"

definition exampleUniform :: HelmChart where
  "exampleUniform =
     \<lparr>Name = ''shop'', Version = ''0.2'', HelmRepo = ''repo'',
      ContainsImages =
        [Some (image ''r'' ''a'' ''v1'' [cve ''CVE-1'' ''high'']),
         Some (image ''r'' ''b'' ''v1'' [cve ''CVE-1'' ''high''])]\<rparr>"

section \<open>Maps and iteration\<close>

lemma iteration_order_id: "iteration_order (\<lambda>ks. ks)"
  by (simp add: iteration_order_def)

lemma iteration_order_rev: "iteration_order rev"
  by (simp add: iteration_order_def)

lemma iteration_ordersD: "iteration_orders ord \<Longrightarrow> iteration_order (ord l)"
  by (simp add: iteration_orders_def)

lemma iteration_orders_id: "iteration_orders (\<lambda>l ks. ks)"
  by (simp add: iteration_orders_def iteration_order_id)

lemma iteration_orders_rev: "iteration_orders (\<lambda>l. rev)"
  by (simp add: iteration_orders_def iteration_order_rev)

lemma iteration_orders_within: "iteration_orders ord \<Longrightarrow> iteration_orders (within l ord)"
  by (simp add: iteration_orders_def within_def)

lemma keys_set: "set (keys m) = fst ` set m" and keys_distinct: "distinct (keys m)"
  by (simp_all add: keys_def)

lemma ranged_via_keys:
  assumes "set ks \<subseteq> fst ` set m"
  shows "concat (map (\<lambda>k. case map_of m k of None \<Rightarrow> [] | Some v \<Rightarrow> [(k, v)]) ks)
         = map (\<lambda>k. (k, the (map_of m k))) ks"
  using assms
proof (induction ks)
  case Nil
  then show ?case by simp
next
  case (Cons k ks)
  then have "k \<in> fst ` set m" by simp
  then obtain v where "map_of m k = Some v"
    by (metis domD dom_map_of_conv_image_fst)
  with Cons show ?case by simp
qed

lemma ranged_eq:
  assumes "iteration_order ord"
  shows "ranged ord m = map (\<lambda>k. (k, the (map_of m k))) (ord (keys m))"
proof -
  have "set (ord (keys m)) = fst ` set m"
    using assms keys_distinct[of m] keys_set[of m] by (simp add: iteration_order_def)
  then show ?thesis
    unfolding ranged_def by (intro ranged_via_keys) simp
qed

lemma ranged_fst:
  assumes "iteration_order ord"
  shows "map fst (ranged ord m) = ord (keys m)"
  by (simp add: ranged_eq[OF assms] comp_def)

lemma ranged_distinct:
  assumes "iteration_order ord"
  shows "distinct (map fst (ranged ord m))"
  using assms keys_distinct[of m] by (simp add: ranged_fst iteration_order_def)

lemma ranged_map_of:
  assumes "iteration_order ord"
  shows "map_of (ranged ord m) = map_of m"
proof
  fix k
  have S: "set (ord (keys m)) = fst ` set m"
    using assms keys_distinct[of m] keys_set[of m] by (simp add: iteration_order_def)
  show "map_of (ranged ord m) k = map_of m k"
  proof (cases "k \<in> fst ` set m")
    case True
    then obtain v where v: "map_of m k = Some v"
      by (metis domD dom_map_of_conv_image_fst)
    have "map_of (map (\<lambda>k. (k, the (map_of m k))) (ord (keys m))) k = Some (the (map_of m k))"
      using True S by (simp add: map_of_map_restrict restrict_map_def)
    then show ?thesis by (simp add: ranged_eq[OF assms] v)
  next
    case False
    then have "map_of m k = None"
      by (simp add: map_of_eq_None_iff)
    moreover have "k \<notin> fst ` set (ranged ord m)"
      using False S by (simp add: ranged_eq[OF assms] image_image)
    ultimately show ?thesis by (metis map_of_eq_None_iff)
  qed
qed

lemma lookup2_put2:
  "lookup2 (put2 m i n v) i' n' = (if i' = i \<and> n' = n then Some v else lookup2 m i' n')"
  by (auto simp: lookup2_def put2_def AList.update_conv' split: option.splits)

lemma fold_obs:
  assumes "\<And>k x s. (k, x) \<in> set xs \<Longrightarrow>
             obs (f (k, x) s) = (\<lambda>n. if n = k then h k x (obs s k) else obs s n)"
    and "distinct (map fst xs)"
  shows "obs (fold f xs s) n = (case map_of xs n of None \<Rightarrow> obs s n | Some x \<Rightarrow> h n x (obs s n))"
  using assms
proof (induction xs arbitrary: s)
  case Nil
  then show ?case by simp
next
  case (Cons p xs)
  obtain k x where p: "p = (k, x)" by (cases p)
  have step: "obs (f (k, x) s) = (\<lambda>n. if n = k then h k x (obs s k) else obs s n)"
    using Cons.prems(1)[of k x s] p by simp
  have IH: "obs (fold f xs (f (k, x) s)) n =
        (case map_of xs n of None \<Rightarrow> obs (f (k, x) s) n | Some x' \<Rightarrow> h n x' (obs (f (k, x) s) n))"
    using Cons.prems by (intro Cons.IH) auto
  have notin: "map_of xs k = None"
    using Cons.prems(2) p by (simp add: map_of_eq_None_iff)
  show ?case
    using IH notin by (auto simp: p step split: option.splits)
qed

section \<open>The loops of the comparison\<close>

lemma putAll_Nil: "putAll P n [] m = m"
  by (simp add: putAll_def)

lemma putAll_Cons:
  "putAll P n ((i, v) # es) m = putAll P n es (if P i then put2 m i n v else m)"
  by (simp add: putAll_def)

lemma lookup2_putAll:
  assumes "distinct (map fst es)"
  shows "lookup2 (putAll P n es m) i n' =
     (if n' = n \<and> P i then (case map_of es i of Some v \<Rightarrow> Some v | None \<Rightarrow> lookup2 m i n')
      else lookup2 m i n')"
  using assms
proof (induction es arbitrary: m)
  case Nil
  then show ?case by (simp add: putAll_Nil)
next
  case (Cons e es)
  obtain j w where e: "e = (j, w)" by (cases e)
  have d: "distinct (map fst es)" and nj: "map_of es j = None"
    using Cons.prems e by (simp_all add: map_of_eq_None_iff)
  show ?case
    using nj by (auto simp: e putAll_Cons Cons.IH[OF d] lookup2_put2 split: option.splits)
qed

lemma lookup2_putAll_ranged:
  assumes "iteration_order ord"
  shows "lookup2 (putAll P n (ranged ord vm) m) i n' =
     (if n' = n \<and> P i then (case map_of vm i of Some v \<Rightarrow> Some v | None \<Rightarrow> lookup2 m i n')
      else lookup2 m i n')"
  by (simp add: lookup2_putAll[OF ranged_distinct[OF assms]] ranged_map_of[OF assms])

lemma fold_Removed:
  "fold (\<lambda>(i, vuln) c. c\<lparr>RemovedCVEs := put2 (RemovedCVEs c) i n vuln\<rparr>) es c =
   c\<lparr>RemovedCVEs := putAll (\<lambda>_. True) n es (RemovedCVEs c)\<rparr>"
  by (induction es arbitrary: c) (auto simp: putAll_Nil putAll_Cons)

lemma fold_Unchanged:
  "fold (\<lambda>(i, vuln) c. c\<lparr>UnchangedCVEs := put2 (UnchangedCVEs c) i n vuln\<rparr>) es c =
   c\<lparr>UnchangedCVEs := putAll (\<lambda>_. True) n es (UnchangedCVEs c)\<rparr>"
  by (induction es arbitrary: c) (auto simp: putAll_Nil putAll_Cons)

lemma fold_Added:
  "fold (\<lambda>(i, vuln) c. c\<lparr>AddedCVEs := put2 (AddedCVEs c) i n vuln\<rparr>) es c =
   c\<lparr>AddedCVEs := putAll (\<lambda>_. True) n es (AddedCVEs c)\<rparr>"
  by (induction es arbitrary: c) (auto simp: putAll_Nil putAll_Cons)

lemma fold_Added_if:
  "fold (\<lambda>(i, vuln) c. if P i then c\<lparr>AddedCVEs := put2 (AddedCVEs c) i n vuln\<rparr> else c) es c =
   c\<lparr>AddedCVEs := putAll P n es (AddedCVEs c)\<rparr>"
  by (induction es arbitrary: c) (auto simp: putAll_Nil putAll_Cons)

lemma fold_Removed_Unchanged:
  "fold (\<lambda>(i, vuln) c. if P i then c\<lparr>RemovedCVEs := put2 (RemovedCVEs c) i n vuln\<rparr>
                        else c\<lparr>UnchangedCVEs := put2 (UnchangedCVEs c) i n vuln\<rparr>) es c =
   c\<lparr>RemovedCVEs := putAll P n es (RemovedCVEs c),
     UnchangedCVEs := putAll (\<lambda>i. \<not> P i) n es (UnchangedCVEs c)\<rparr>"
  by (induction es arbitrary: c) (auto simp: putAll_Nil putAll_Cons)

lemma compareImageVulnerabilities_eq:
  "compareImageVulnerabilities ord b a c =
   c\<lparr>RemovedCVEs := putAll (\<lambda>i. map_of (vulns a) i = None) (ImageName b) (ranged (ord [''230'', ImageName b]) (vulns b)) (RemovedCVEs c),
     UnchangedCVEs := putAll (\<lambda>i. map_of (vulns a) i \<noteq> None) (ImageName b) (ranged (ord [''230'', ImageName b]) (vulns b)) (UnchangedCVEs c),
     AddedCVEs := putAll (\<lambda>i. map_of (vulns b) i = None) (ImageName a) (ranged (ord [''244'', ImageName a]) (vulns a)) (AddedCVEs c)\<rparr>"
  by (simp add: compareImageVulnerabilities_def Let_def fold_Removed_Unchanged fold_Added_if)

lemma beforeStep_eq:
  "beforeStep ord aI (k, b) c =
    (case map_of aI k of
       Some a \<Rightarrow>
         if Tag b \<noteq> Tag a
         then c\<lparr>ChangedImages := AList.update k [Some b, Some a] (ChangedImages c),
                RemovedCVEs := putAll (\<lambda>i. map_of (vulns a) i = None) (ImageName b) (ranged (ord [''230'', ImageName b]) (vulns b)) (RemovedCVEs c),
                UnchangedCVEs := putAll (\<lambda>i. map_of (vulns a) i \<noteq> None) (ImageName b) (ranged (ord [''230'', ImageName b]) (vulns b)) (UnchangedCVEs c),
                AddedCVEs := putAll (\<lambda>i. map_of (vulns b) i = None) (ImageName a) (ranged (ord [''244'', ImageName a]) (vulns a)) (AddedCVEs c)\<rparr>
         else c\<lparr>UnChangedImages := AList.update k [Some b, Some a] (UnChangedImages c),
                UnchangedCVEs := putAll (\<lambda>_. True) k (ranged (ord [''192'', k]) (vulns b)) (UnchangedCVEs c)\<rparr>
     | None \<Rightarrow>
         c\<lparr>RemovedImages := AList.update k [Some b] (RemovedImages c),
           RemovedCVEs := putAll (\<lambda>_. True) k (ranged (ord [''201'', k]) (vulns b)) (RemovedCVEs c)\<rparr>)"
  by (simp add: beforeStep_def compareImageVulnerabilities_eq fold_Unchanged fold_Removed
           split: option.splits)

lemma afterStep_eq:
  "afterStep ord bI (k, a) c =
    (case map_of bI k of
       None \<Rightarrow> c\<lparr>AddedImages := AList.update k [Some a] (AddedImages c),
                 AddedCVEs := putAll (\<lambda>_. True) k (ranged (ord [''215'', k]) (vulns a)) (AddedCVEs c)\<rparr>
     | Some _ \<Rightarrow> c)"
  by (simp add: afterStep_def fold_Added split: option.splits)

lemma ranged_entry:
  assumes "iteration_order ord" and "(k, x) \<in> set (ranged ord m)"
  shows "map_of m k = Some x"
  using assms ranged_map_of[OF assms(1), of m] ranged_distinct[OF assms(1), of m]
  by (metis map_of_is_SomeI)

lemma case_option_id: "(case x of None \<Rightarrow> None | Some v \<Rightarrow> Some v) = x"
  by (cases x) simp_all

lemma before_name:
  assumes io: "iteration_order ord" and nb: "named bI"
  shows "(k, b) \<in> set (ranged ord bI) \<Longrightarrow> ImageName b = k"
  using ranged_entry[OF io, of k b bI] nb by (auto simp: named_def)

lemma after_name: "named aI \<Longrightarrow> map_of aI k = Some a \<Longrightarrow> ImageName a = k"
  by (auto simp: named_def)

lemma B_RemovedImages:
  assumes io: "iteration_orders ord"
  shows "map_of (RemovedImages (fold (beforeStep ord aI) (ranged (ord [''185'']) bI) c)) n =
     (case map_of bI n of
        None \<Rightarrow> map_of (RemovedImages c) n
      | Some b \<Rightarrow> if map_of aI n = None then Some [Some b] else map_of (RemovedImages c) n)"
proof -
  have "(\<lambda>c n. map_of (RemovedImages c) n) (fold (beforeStep ord aI) (ranged (ord [''185'']) bI) c) n =
     (case map_of (ranged (ord [''185'']) bI) n of
        None \<Rightarrow> map_of (RemovedImages c) n
      | Some b \<Rightarrow> (\<lambda>k b old. if map_of aI k = None then Some [Some b] else old) n b (map_of (RemovedImages c) n))"
    by (rule fold_obs) (auto simp: beforeStep_eq update_conv' ranged_distinct[OF iteration_ordersD[OF io]] fun_eq_iff split: option.splits)
  then show ?thesis by (simp add: ranged_map_of[OF iteration_ordersD[OF io]])
qed

lemma B_ChangedImages:
  assumes io: "iteration_orders ord"
  shows "map_of (ChangedImages (fold (beforeStep ord aI) (ranged (ord [''185'']) bI) c)) n =
     (case map_of bI n of
        None \<Rightarrow> map_of (ChangedImages c) n
      | Some b \<Rightarrow> (case map_of aI n of
                    None \<Rightarrow> map_of (ChangedImages c) n
                  | Some a \<Rightarrow> if Tag b \<noteq> Tag a then Some [Some b, Some a] else map_of (ChangedImages c) n))"
proof -
  have "(\<lambda>c n. map_of (ChangedImages c) n) (fold (beforeStep ord aI) (ranged (ord [''185'']) bI) c) n =
     (case map_of (ranged (ord [''185'']) bI) n of
        None \<Rightarrow> map_of (ChangedImages c) n
      | Some b \<Rightarrow> (\<lambda>k b old. case map_of aI k of None \<Rightarrow> old
                     | Some a \<Rightarrow> if Tag b \<noteq> Tag a then Some [Some b, Some a] else old) n b (map_of (ChangedImages c) n))"
    by (rule fold_obs) (auto simp: beforeStep_eq update_conv' ranged_distinct[OF iteration_ordersD[OF io]] fun_eq_iff split: option.splits)
  then show ?thesis by (simp add: ranged_map_of[OF iteration_ordersD[OF io]])
qed

lemma B_UnChangedImages:
  assumes io: "iteration_orders ord"
  shows "map_of (UnChangedImages (fold (beforeStep ord aI) (ranged (ord [''185'']) bI) c)) n =
     (case map_of bI n of
        None \<Rightarrow> map_of (UnChangedImages c) n
      | Some b \<Rightarrow> (case map_of aI n of
                    None \<Rightarrow> map_of (UnChangedImages c) n
                  | Some a \<Rightarrow> if Tag b \<noteq> Tag a then map_of (UnChangedImages c) n else Some [Some b, Some a]))"
proof -
  have "(\<lambda>c n. map_of (UnChangedImages c) n) (fold (beforeStep ord aI) (ranged (ord [''185'']) bI) c) n =
     (case map_of (ranged (ord [''185'']) bI) n of
        None \<Rightarrow> map_of (UnChangedImages c) n
      | Some b \<Rightarrow> (\<lambda>k b old. case map_of aI k of None \<Rightarrow> old
                     | Some a \<Rightarrow> if Tag b \<noteq> Tag a then old else Some [Some b, Some a]) n b (map_of (UnChangedImages c) n))"
    by (rule fold_obs) (auto simp: beforeStep_eq update_conv' ranged_distinct[OF iteration_ordersD[OF io]] fun_eq_iff split: option.splits)
  then show ?thesis by (simp add: ranged_map_of[OF iteration_ordersD[OF io]])
qed

lemma B_AddedImages:
  "AddedImages (fold (beforeStep ord aI) xs c) = AddedImages c"
  by (induction xs arbitrary: c) (auto simp: beforeStep_eq split: option.splits)

lemma B_Before_After:
  "Before (fold (beforeStep ord aI) xs c) = Before c"
  "After (fold (beforeStep ord aI) xs c) = After c"
  by (induction xs arbitrary: c) (auto simp: beforeStep_eq split: option.splits)

lemma B_RemovedCVEs:
  assumes io: "iteration_orders ord" and nb: "named bI"
  shows "lookup2 (RemovedCVEs (fold (beforeStep ord aI) (ranged (ord [''185'']) bI) c)) i n =
     (case map_of bI n of
        None \<Rightarrow> lookup2 (RemovedCVEs c) i n
      | Some b \<Rightarrow>
         (case map_of (vulns b) i of
            None \<Rightarrow> lookup2 (RemovedCVEs c) i n
          | Some v \<Rightarrow>
             (case map_of aI n of
                None \<Rightarrow> Some v
              | Some a \<Rightarrow> if Tag b \<noteq> Tag a \<and> map_of (vulns a) i = None then Some v
                          else lookup2 (RemovedCVEs c) i n)))"
proof -
  have "(\<lambda>c n i. lookup2 (RemovedCVEs c) i n) (fold (beforeStep ord aI) (ranged (ord [''185'']) bI) c) n =
     (case map_of (ranged (ord [''185'']) bI) n of
        None \<Rightarrow> (\<lambda>i. lookup2 (RemovedCVEs c) i n)
      | Some b \<Rightarrow> (\<lambda>k b old i. case map_of (vulns b) i of None \<Rightarrow> old i
             | Some v \<Rightarrow> (case map_of aI k of None \<Rightarrow> Some v
                | Some a \<Rightarrow> if Tag b \<noteq> Tag a \<and> map_of (vulns a) i = None then Some v else old i))
            n b (\<lambda>i. lookup2 (RemovedCVEs c) i n))"
    by (rule fold_obs)
       (auto simp: beforeStep_eq lookup2_putAll_ranged[OF iteration_ordersD[OF io]] before_name[OF iteration_ordersD[OF io] nb] ranged_distinct[OF iteration_ordersD[OF io]] fun_eq_iff
             split: option.splits)
  then show ?thesis by (simp add: ranged_map_of[OF iteration_ordersD[OF io]] fun_eq_iff split: option.splits)
qed

lemma B_UnchangedCVEs:
  assumes io: "iteration_orders ord" and nb: "named bI"
  shows "lookup2 (UnchangedCVEs (fold (beforeStep ord aI) (ranged (ord [''185'']) bI) c)) i n =
     (case map_of bI n of
        None \<Rightarrow> lookup2 (UnchangedCVEs c) i n
      | Some b \<Rightarrow>
         (case map_of (vulns b) i of
            None \<Rightarrow> lookup2 (UnchangedCVEs c) i n
          | Some v \<Rightarrow>
             (case map_of aI n of
                None \<Rightarrow> lookup2 (UnchangedCVEs c) i n
              | Some a \<Rightarrow> if Tag b \<noteq> Tag a \<and> map_of (vulns a) i = None
                          then lookup2 (UnchangedCVEs c) i n else Some v)))"
proof -
  have "(\<lambda>c n i. lookup2 (UnchangedCVEs c) i n) (fold (beforeStep ord aI) (ranged (ord [''185'']) bI) c) n =
     (case map_of (ranged (ord [''185'']) bI) n of
        None \<Rightarrow> (\<lambda>i. lookup2 (UnchangedCVEs c) i n)
      | Some b \<Rightarrow> (\<lambda>k b old i. case map_of (vulns b) i of None \<Rightarrow> old i
             | Some v \<Rightarrow> (case map_of aI k of None \<Rightarrow> old i
                | Some a \<Rightarrow> if Tag b \<noteq> Tag a \<and> map_of (vulns a) i = None then old i else Some v))
            n b (\<lambda>i. lookup2 (UnchangedCVEs c) i n))"
    by (rule fold_obs)
       (auto simp: beforeStep_eq lookup2_putAll_ranged[OF iteration_ordersD[OF io]] before_name[OF iteration_ordersD[OF io] nb] ranged_distinct[OF iteration_ordersD[OF io]] fun_eq_iff
             split: option.splits)
  then show ?thesis by (simp add: ranged_map_of[OF iteration_ordersD[OF io]] fun_eq_iff split: option.splits)
qed

lemma B_AddedCVEs:
  assumes io: "iteration_orders ord" and na: "named aI"
  shows "lookup2 (AddedCVEs (fold (beforeStep ord aI) (ranged (ord [''185'']) bI) c)) i n =
     (case map_of bI n of
        None \<Rightarrow> lookup2 (AddedCVEs c) i n
      | Some b \<Rightarrow>
         (case map_of aI n of
            None \<Rightarrow> lookup2 (AddedCVEs c) i n
          | Some a \<Rightarrow>
              (case map_of (vulns a) i of
                 None \<Rightarrow> lookup2 (AddedCVEs c) i n
               | Some v \<Rightarrow> if Tag b \<noteq> Tag a \<and> map_of (vulns b) i = None then Some v
                           else lookup2 (AddedCVEs c) i n)))"
proof -
  have "(\<lambda>c n i. lookup2 (AddedCVEs c) i n) (fold (beforeStep ord aI) (ranged (ord [''185'']) bI) c) n =
     (case map_of (ranged (ord [''185'']) bI) n of
        None \<Rightarrow> (\<lambda>i. lookup2 (AddedCVEs c) i n)
      | Some b \<Rightarrow> (\<lambda>k b old i. case map_of aI k of None \<Rightarrow> old i
             | Some a \<Rightarrow> (case map_of (vulns a) i of None \<Rightarrow> old i
                | Some v \<Rightarrow> if Tag b \<noteq> Tag a \<and> map_of (vulns b) i = None then Some v else old i))
            n b (\<lambda>i. lookup2 (AddedCVEs c) i n))"
    by (rule fold_obs)
       (auto simp: beforeStep_eq lookup2_putAll_ranged[OF iteration_ordersD[OF io]] after_name[OF na] ranged_distinct[OF iteration_ordersD[OF io]] fun_eq_iff
             split: option.splits)
  then show ?thesis by (simp add: ranged_map_of[OF iteration_ordersD[OF io]] fun_eq_iff split: option.splits)
qed

lemma A_AddedImages:
  assumes io: "iteration_orders ord"
  shows "map_of (AddedImages (fold (afterStep ord bI) (ranged (ord [''212'']) aI) c)) n =
     (case map_of aI n of
        None \<Rightarrow> map_of (AddedImages c) n
      | Some a \<Rightarrow> if map_of bI n = None then Some [Some a] else map_of (AddedImages c) n)"
proof -
  have "(\<lambda>c n. map_of (AddedImages c) n) (fold (afterStep ord bI) (ranged (ord [''212'']) aI) c) n =
     (case map_of (ranged (ord [''212'']) aI) n of
        None \<Rightarrow> map_of (AddedImages c) n
      | Some a \<Rightarrow> (\<lambda>k a old. if map_of bI k = None then Some [Some a] else old) n a (map_of (AddedImages c) n))"
    by (rule fold_obs) (auto simp: afterStep_eq update_conv' ranged_distinct[OF iteration_ordersD[OF io]] fun_eq_iff split: option.splits)
  then show ?thesis by (simp add: ranged_map_of[OF iteration_ordersD[OF io]])
qed

lemma A_AddedCVEs:
  assumes io: "iteration_orders ord"
  shows "lookup2 (AddedCVEs (fold (afterStep ord bI) (ranged (ord [''212'']) aI) c)) i n =
     (case map_of aI n of
        None \<Rightarrow> lookup2 (AddedCVEs c) i n
      | Some a \<Rightarrow>
         (case map_of (vulns a) i of
            None \<Rightarrow> lookup2 (AddedCVEs c) i n
          | Some v \<Rightarrow> if map_of bI n = None then Some v else lookup2 (AddedCVEs c) i n))"
proof -
  have "(\<lambda>c n i. lookup2 (AddedCVEs c) i n) (fold (afterStep ord bI) (ranged (ord [''212'']) aI) c) n =
     (case map_of (ranged (ord [''212'']) aI) n of
        None \<Rightarrow> (\<lambda>i. lookup2 (AddedCVEs c) i n)
      | Some a \<Rightarrow> (\<lambda>k a old i. case map_of (vulns a) i of None \<Rightarrow> old i
             | Some v \<Rightarrow> if map_of bI k = None then Some v else old i)
            n a (\<lambda>i. lookup2 (AddedCVEs c) i n))"
    by (rule fold_obs)
       (auto simp: afterStep_eq lookup2_putAll_ranged[OF iteration_ordersD[OF io]] ranged_distinct[OF iteration_ordersD[OF io]] fun_eq_iff
             split: option.splits)
  then show ?thesis by (simp add: ranged_map_of[OF iteration_ordersD[OF io]] fun_eq_iff split: option.splits)
qed

lemma A_frame:
  "RemovedImages (fold (afterStep ord bI) xs c) = RemovedImages c"
  "ChangedImages (fold (afterStep ord bI) xs c) = ChangedImages c"
  "UnChangedImages (fold (afterStep ord bI) xs c) = UnChangedImages c"
  "RemovedCVEs (fold (afterStep ord bI) xs c) = RemovedCVEs c"
  "UnchangedCVEs (fold (afterStep ord bI) xs c) = UnchangedCVEs c"
  "Before (fold (afterStep ord bI) xs c) = Before c"
  "After (fold (afterStep ord bI) xs c) = After c"
  by (induction xs arbitrary: c) (auto simp: afterStep_eq split: option.splits)

lemma lookup2_Nil: "lookup2 [] i n = None"
  by (simp add: lookup2_def)

lemma indexImages_Inr:
  "(\<exists>idx. indexImages imgs m = Inr idx) \<longleftrightarrow> None \<notin> set imgs"
proof (induction imgs arbitrary: m)
  case Nil
  then show ?case by simp
next
  case (Cons p imgs)
  then show ?case by (cases p) auto
qed

lemma indexImages_named:
  assumes "indexImages imgs m = Inr idx" and "named m"
  shows "named idx"
  using assms
proof (induction imgs arbitrary: m)
  case Nil
  then show ?case by simp
next
  case (Cons p imgs)
  show ?case
  proof (cases p)
    case None
    with Cons.prems show ?thesis by simp
  next
    case (Some img)
    have "named (AList.update (ImageName img) img m)"
      using Cons.prems(2) by (auto simp: named_def update_conv')
    with Cons.IH Cons.prems(1) Some show ?thesis by simp
  qed
qed

lemma indexImages_lookup:
  assumes "indexImages imgs m = Inr idx"
  shows "map_of idx n = (case lastNamed n imgs of None \<Rightarrow> map_of m n | Some img \<Rightarrow> Some img)"
  using assms
proof (induction imgs arbitrary: m)
  case Nil
  then show ?case by simp
next
  case (Cons p imgs)
  show ?case
  proof (cases p)
    case None
    with Cons.prems show ?thesis by simp
  next
    case (Some img)
    with Cons.prems have "indexImages imgs (AList.update (ImageName img) img m) = Inr idx"
      by simp
    from Cons.IH[OF this] show ?thesis
      by (auto simp: Some update_conv' split: option.splits)
  qed
qed

lemma lastNamed_Some:
  "lastNamed n imgs = Some img \<Longrightarrow> ImageName img = n \<and> Some img \<in> set imgs"
  by (induction imgs) (auto split: option.splits if_splits)

lemma lastNamed_None:
  "lastNamed n imgs = None \<longleftrightarrow> (\<forall>img. Some img \<in> set imgs \<longrightarrow> ImageName img \<noteq> n)"
  by (induction imgs) (auto split: option.splits if_splits)

lemma images_set: "set (images chart) = {img. Some img \<in> set (ContainsImages chart)}"
  by (auto simp: images_def split: option.splits)

lemma lastNamed_dom: "(lastNamed n (ContainsImages chart) \<noteq> None) = (n \<in> imageNames chart)"
  by (auto simp: lastNamed_None imageNames_def images_set)

lemma CompareHelmCharts_Inr:
  "(\<exists>c. CompareHelmCharts ord b a = Inr c) \<longleftrightarrow>
     None \<notin> set (ContainsImages b) \<and> None \<notin> set (ContainsImages a)"
  using indexImages_Inr[of "ContainsImages b" "[]"] indexImages_Inr[of "ContainsImages a" "[]"]
  by (auto simp: CompareHelmCharts_def split: sum.splits)

lemma CompareHelmCharts_indexed:
  assumes "CompareHelmCharts ord b a = Inr c"
  obtains bI aI where "named bI" "named aI"
    "\<And>n. map_of bI n = lastNamed n (ContainsImages b)"
    "\<And>n. map_of aI n = lastNamed n (ContainsImages a)"
    "c = compareIndexed ord bI aI (emptyComparison b a)"
proof -
  from assms obtain bI aI where
    bI: "indexImages (ContainsImages b) [] = Inr bI" and
    aI: "indexImages (ContainsImages a) [] = Inr aI" and
    c: "c = compareIndexed ord bI aI (emptyComparison b a)"
    by (auto simp: CompareHelmCharts_def split: sum.splits)
  have e: "named []" by (simp add: named_def)
  have "map_of bI n = lastNamed n (ContainsImages b)" for n
    using indexImages_lookup[OF bI, of n] by (simp split: option.splits)
  moreover have "map_of aI n = lastNamed n (ContainsImages a)" for n
    using indexImages_lookup[OF aI, of n] by (simp split: option.splits)
  ultimately show ?thesis
    using that indexImages_named[OF bI e] indexImages_named[OF aI e] c by blast
qed

text \<open>The result of a comparison, field by field.\<close>

lemma Compare_AddedImages:
  assumes "iteration_orders ord" and "CompareHelmCharts ord b a = Inr c"
  shows "map_of (AddedImages c) n =
     (case lastNamed n (ContainsImages a) of
        None \<Rightarrow> None
      | Some ai \<Rightarrow> if lastNamed n (ContainsImages b) = None then Some [Some ai] else None)"
  using assms(2)
proof (rule CompareHelmCharts_indexed)
  fix bI aI assume "named bI" "named aI"
    and "\<And>n. map_of bI n = lastNamed n (ContainsImages b)"
    and "\<And>n. map_of aI n = lastNamed n (ContainsImages a)"
    and "c = compareIndexed ord bI aI (emptyComparison b a)"
  then show ?thesis
    by (auto simp: compareIndexed_def A_AddedImages[OF assms(1)] B_AddedImages emptyComparison_def
        split: option.splits)
qed

lemma Compare_RemovedImages:
  assumes "iteration_orders ord" and "CompareHelmCharts ord b a = Inr c"
  shows "map_of (RemovedImages c) n =
     (case lastNamed n (ContainsImages b) of
        None \<Rightarrow> None
      | Some bi \<Rightarrow> if lastNamed n (ContainsImages a) = None then Some [Some bi] else None)"
  using assms(2)
proof (rule CompareHelmCharts_indexed)
  fix bI aI assume "named bI" "named aI"
    and "\<And>n. map_of bI n = lastNamed n (ContainsImages b)"
    and "\<And>n. map_of aI n = lastNamed n (ContainsImages a)"
    and "c = compareIndexed ord bI aI (emptyComparison b a)"
  then show ?thesis
    by (auto simp: compareIndexed_def A_frame B_RemovedImages[OF assms(1)] emptyComparison_def
        split: option.splits)
qed

lemma Compare_ChangedImages:
  assumes "iteration_orders ord" and "CompareHelmCharts ord b a = Inr c"
  shows "map_of (ChangedImages c) n =
     (case lastNamed n (ContainsImages b) of
        None \<Rightarrow> None
      | Some bi \<Rightarrow>
          (case lastNamed n (ContainsImages a) of
             None \<Rightarrow> None
           | Some ai \<Rightarrow> if Tag bi \<noteq> Tag ai then Some [Some bi, Some ai] else None))"
  using assms(2)
proof (rule CompareHelmCharts_indexed)
  fix bI aI assume "named bI" "named aI"
    and "\<And>n. map_of bI n = lastNamed n (ContainsImages b)"
    and "\<And>n. map_of aI n = lastNamed n (ContainsImages a)"
    and "c = compareIndexed ord bI aI (emptyComparison b a)"
  then show ?thesis
    by (auto simp: compareIndexed_def A_frame B_ChangedImages[OF assms(1)] emptyComparison_def
        split: option.splits)
qed

lemma Compare_UnChangedImages:
  assumes "iteration_orders ord" and "CompareHelmCharts ord b a = Inr c"
  shows "map_of (UnChangedImages c) n =
     (case lastNamed n (ContainsImages b) of
        None \<Rightarrow> None
      | Some bi \<Rightarrow>
          (case lastNamed n (ContainsImages a) of
             None \<Rightarrow> None
           | Some ai \<Rightarrow> if Tag bi \<noteq> Tag ai then None else Some [Some bi, Some ai]))"
  using assms(2)
proof (rule CompareHelmCharts_indexed)
  fix bI aI assume "named bI" "named aI"
    and "\<And>n. map_of bI n = lastNamed n (ContainsImages b)"
    and "\<And>n. map_of aI n = lastNamed n (ContainsImages a)"
    and "c = compareIndexed ord bI aI (emptyComparison b a)"
  then show ?thesis
    by (auto simp: compareIndexed_def A_frame B_UnChangedImages[OF assms(1)] emptyComparison_def
        split: option.splits)
qed

lemma Compare_RemovedCVEs:
  assumes "iteration_orders ord" and "CompareHelmCharts ord b a = Inr c"
  shows "lookup2 (RemovedCVEs c) i n =
     (case lastNamed n (ContainsImages b) of
        None \<Rightarrow> None
      | Some bi \<Rightarrow>
          (case lastNamed n (ContainsImages a) of
             None \<Rightarrow> map_of (vulns bi) i
           | Some ai \<Rightarrow> if Tag bi \<noteq> Tag ai \<and> map_of (vulns ai) i = None
                        then map_of (vulns bi) i else None))"
  using assms(2)
proof (rule CompareHelmCharts_indexed)
  fix bI aI assume "named bI" "named aI"
    and "\<And>n. map_of bI n = lastNamed n (ContainsImages b)"
    and "\<And>n. map_of aI n = lastNamed n (ContainsImages a)"
    and "c = compareIndexed ord bI aI (emptyComparison b a)"
  then show ?thesis
    by (auto simp: compareIndexed_def A_frame B_RemovedCVEs[OF assms(1)] emptyComparison_def
        lookup2_Nil split: option.splits)
qed

lemma Compare_UnchangedCVEs:
  assumes "iteration_orders ord" and "CompareHelmCharts ord b a = Inr c"
  shows "lookup2 (UnchangedCVEs c) i n =
     (case lastNamed n (ContainsImages b) of
        None \<Rightarrow> None
      | Some bi \<Rightarrow>
          (case lastNamed n (ContainsImages a) of
             None \<Rightarrow> None
           | Some ai \<Rightarrow> if Tag bi \<noteq> Tag ai \<and> map_of (vulns ai) i = None
                        then None else map_of (vulns bi) i))"
  using assms(2)
proof (rule CompareHelmCharts_indexed)
  fix bI aI assume "named bI" "named aI"
    and "\<And>n. map_of bI n = lastNamed n (ContainsImages b)"
    and "\<And>n. map_of aI n = lastNamed n (ContainsImages a)"
    and "c = compareIndexed ord bI aI (emptyComparison b a)"
  then show ?thesis
    by (auto simp: compareIndexed_def A_frame B_UnchangedCVEs[OF assms(1)] emptyComparison_def
        lookup2_Nil split: option.splits)
qed

lemma Compare_AddedCVEs:
  assumes "iteration_orders ord" and "CompareHelmCharts ord b a = Inr c"
  shows "lookup2 (AddedCVEs c) i n =
     (case lastNamed n (ContainsImages a) of
        None \<Rightarrow> None
      | Some ai \<Rightarrow>
          (case lastNamed n (ContainsImages b) of
             None \<Rightarrow> map_of (vulns ai) i
           | Some bi \<Rightarrow> if Tag bi \<noteq> Tag ai \<and> map_of (vulns bi) i = None
                        then map_of (vulns ai) i else None))"
  using assms(2)
proof (rule CompareHelmCharts_indexed)
  fix bI aI assume "named bI" "named aI"
    and "\<And>n. map_of bI n = lastNamed n (ContainsImages b)"
    and "\<And>n. map_of aI n = lastNamed n (ContainsImages a)"
    and "c = compareIndexed ord bI aI (emptyComparison b a)"
  then show ?thesis
    by (auto simp: compareIndexed_def A_AddedCVEs[OF assms(1)] B_AddedCVEs[OF assms(1)] emptyComparison_def
        lookup2_Nil split: option.splits)
qed

lemma Compare_Before_After:
  assumes "CompareHelmCharts ord b a = Inr c"
  shows "Before c = b" and "After c = a"
  using assms
  by (auto simp: CompareHelmCharts_def compareIndexed_def A_frame B_Before_After emptyComparison_def
      split: sum.splits)


section \<open>Properties of the comparison\<close>

text \<open>
  C1 (partition completeness). For every iteration order and every pair of charts whose
  slices hold no nil pointer, \<open>CompareHelmCharts\<close> returns a comparison, and every image
  name that occurs in \<open>before.ContainsImages\<close> or \<open>after.ContainsImages\<close> is a key of exactly
  one of the four maps \<open>AddedImages\<close>, \<open>RemovedImages\<close>, \<open>ChangedImages\<close>, \<open>UnChangedImages\<close>.
\<close>

theorem partition_completeness:
  assumes "iteration_orders ord"
    and "None \<notin> set (ContainsImages before)" and "None \<notin> set (ContainsImages after)"
  shows "\<exists>c. CompareHelmCharts ord before after = Inr c \<and>
           (\<forall>n \<in> imageNames before \<union> imageNames after.
              length (filter (\<lambda>m. hasKey m n)
                [AddedImages c, RemovedImages c, ChangedImages c, UnChangedImages c]) = 1)"
proof -
  from assms(2,3) obtain c where c: "CompareHelmCharts ord before after = Inr c"
    using CompareHelmCharts_Inr[of ord before after] by blast
  note flds = Compare_AddedImages[OF assms(1) c] Compare_RemovedImages[OF assms(1) c]
    Compare_ChangedImages[OF assms(1) c] Compare_UnChangedImages[OF assms(1) c]
  have "length (filter (\<lambda>m. hasKey m n)
          [AddedImages c, RemovedImages c, ChangedImages c, UnChangedImages c]) = 1"
    if "n \<in> imageNames before \<union> imageNames after" for n
  proof -
    from that have "lastNamed n (ContainsImages before) \<noteq> None \<or> lastNamed n (ContainsImages after) \<noteq> None"
      using lastNamed_dom[of n before] lastNamed_dom[of n after] by blast
    then show ?thesis
      by (auto simp: hasKey_def flds split: option.splits)
  qed
  with c show ?thesis by blast
qed

theorem partition_completeness_witness:
  "\<exists>c. CompareHelmCharts (\<lambda>l. rev) exampleBefore exampleAfter = Inr c \<and>
     length (filter (\<lambda>m. hasKey m ''app'')
       [AddedImages c, RemovedImages c, ChangedImages c, UnChangedImages c]) = 1 \<and>
     length (filter (\<lambda>m. hasKey m ''web'')
       [AddedImages c, RemovedImages c, ChangedImages c, UnChangedImages c]) = 1"
proof -
  have "None \<notin> set (ContainsImages exampleBefore)" "None \<notin> set (ContainsImages exampleAfter)"
    by (simp_all add: exampleBefore_def exampleAfter_def)
  from partition_completeness[OF iteration_orders_rev this]
  obtain c where c: "CompareHelmCharts (\<lambda>l. rev) exampleBefore exampleAfter = Inr c"
    and p: "\<forall>n \<in> imageNames exampleBefore \<union> imageNames exampleAfter.
              length (filter (\<lambda>m. hasKey m n)
                [AddedImages c, RemovedImages c, ChangedImages c, UnChangedImages c]) = 1"
    by blast
  have "''app'' \<in> imageNames exampleBefore" "''web'' \<in> imageNames exampleAfter"
    by (simp_all add: imageNames_def images_def exampleBefore_def exampleAfter_def image_def)
  with c p show ?thesis by blast
qed

lemma Compare_pair_Changed:
  assumes io: "iteration_orders ord" and c: "CompareHelmCharts ord b a = Inr c"
    and p: "map_of (ChangedImages c) n = Some pair"
  obtains bi ai where "pair = [Some bi, Some ai]"
    "lastNamed n (ContainsImages b) = Some bi" "lastNamed n (ContainsImages a) = Some ai"
    "Tag bi \<noteq> Tag ai"
  using p unfolding Compare_ChangedImages[OF io c]
  by (auto split: option.splits if_splits)

lemma Compare_pair_UnChanged:
  assumes io: "iteration_orders ord" and c: "CompareHelmCharts ord b a = Inr c"
    and p: "map_of (UnChangedImages c) n = Some pair"
  obtains bi ai where "pair = [Some bi, Some ai]"
    "lastNamed n (ContainsImages b) = Some bi" "lastNamed n (ContainsImages a) = Some ai"
    "Tag bi = Tag ai"
  using p unfolding Compare_UnChangedImages[OF io c]
  by (auto split: option.splits if_splits)

text \<open>
  C3 (CVE-level comparison of a Changed pair). For every pair \<open>[before image, after image]\<close>
  stored in \<open>ChangedImages\<close> under the name \<open>n\<close>: an ID found only in the before image's
  map is in \<open>RemovedCVEs[id][n]\<close> with the before image's finding, an ID found only in the
  after image's map is in \<open>AddedCVEs[id][n]\<close> with the after image's finding, and an ID found
  in both is in \<open>UnchangedCVEs[id][n]\<close> with the before image's finding.
\<close>

theorem changed_pair_cves:
  assumes "iteration_orders ord"
    and "None \<notin> set (ContainsImages before)" and "None \<notin> set (ContainsImages after)"
  shows "\<exists>c. CompareHelmCharts ord before after = Inr c \<and>
           (\<forall>n pair. map_of (ChangedImages c) n = Some pair \<longrightarrow>
              (\<exists>bi ai. pair = [Some bi, Some ai] \<and> ImageName bi = n \<and> ImageName ai = n \<and>
                 Some bi \<in> set (ContainsImages before) \<and> Some ai \<in> set (ContainsImages after) \<and>
                 (\<forall>i v. map_of (vulns bi) i = Some v \<and> map_of (vulns ai) i = None \<longrightarrow>
                          lookup2 (RemovedCVEs c) i n = Some v) \<and>
                 (\<forall>i v. map_of (vulns ai) i = Some v \<and> map_of (vulns bi) i = None \<longrightarrow>
                          lookup2 (AddedCVEs c) i n = Some v) \<and>
                 (\<forall>i v. map_of (vulns bi) i = Some v \<and> map_of (vulns ai) i \<noteq> None \<longrightarrow>
                          lookup2 (UnchangedCVEs c) i n = Some v)))"
proof -
  from assms(2,3) obtain c where c: "CompareHelmCharts ord before after = Inr c"
    using CompareHelmCharts_Inr[of ord before after] by blast
  note io = assms(1)
  have "\<exists>bi ai. pair = [Some bi, Some ai] \<and> ImageName bi = n \<and> ImageName ai = n \<and>
                 Some bi \<in> set (ContainsImages before) \<and> Some ai \<in> set (ContainsImages after) \<and>
                 (\<forall>i v. map_of (vulns bi) i = Some v \<and> map_of (vulns ai) i = None \<longrightarrow>
                          lookup2 (RemovedCVEs c) i n = Some v) \<and>
                 (\<forall>i v. map_of (vulns ai) i = Some v \<and> map_of (vulns bi) i = None \<longrightarrow>
                          lookup2 (AddedCVEs c) i n = Some v) \<and>
                 (\<forall>i v. map_of (vulns bi) i = Some v \<and> map_of (vulns ai) i \<noteq> None \<longrightarrow>
                          lookup2 (UnchangedCVEs c) i n = Some v)"
    if p: "map_of (ChangedImages c) n = Some pair" for n pair
  proof -
    from Compare_pair_Changed[OF io c p] obtain bi ai where
      pair: "pair = [Some bi, Some ai]" and
      bi: "lastNamed n (ContainsImages before) = Some bi" and
      ai: "lastNamed n (ContainsImages after) = Some ai" and
      tag: "Tag bi \<noteq> Tag ai" by blast
    have "lookup2 (RemovedCVEs c) i n = Some v"
      if "map_of (vulns bi) i = Some v \<and> map_of (vulns ai) i = None" for i v
      using that by (simp add: Compare_RemovedCVEs[OF io c] bi ai tag)
    moreover have "lookup2 (AddedCVEs c) i n = Some v"
      if "map_of (vulns ai) i = Some v \<and> map_of (vulns bi) i = None" for i v
      using that by (simp add: Compare_AddedCVEs[OF io c] bi ai tag)
    moreover have "lookup2 (UnchangedCVEs c) i n = Some v"
      if "map_of (vulns bi) i = Some v \<and> map_of (vulns ai) i \<noteq> None" for i v
      using that by (simp add: Compare_UnchangedCVEs[OF io c] bi ai tag)
    ultimately show ?thesis
      using pair lastNamed_Some[OF bi] lastNamed_Some[OF ai] by blast
  qed
  with c show ?thesis by blast
qed

lemma example_Inr:
  "None \<notin> set (ContainsImages exampleBefore)" "None \<notin> set (ContainsImages exampleAfter)"
  "None \<notin> set (ContainsImages exampleMalformed)"
  by (simp_all add: exampleBefore_def exampleAfter_def exampleMalformed_def)

lemma example_lastNamed:
  "lastNamed ''app'' (ContainsImages exampleBefore) =
     Some (image ''docker.io'' ''app'' ''v1'' [cve ''CVE-1'' ''high'', cve ''CVE-7'' ''medium''])"
  "lastNamed ''app'' (ContainsImages exampleAfter) =
     Some (image ''docker.io'' ''app'' ''v2''
             [(cve ''CVE-1'' ''high'')\<lparr>Metadata := ''rescan''\<rparr>, cve ''CVE-2'' ''critical''])"
  "lastNamed ''db'' (ContainsImages exampleBefore) =
     Some (image ''docker.io'' ''db'' ''v5'' [cve ''CVE-3'' ''medium''])"
  "lastNamed ''db'' (ContainsImages exampleAfter) =
     Some (image ''ghcr.io'' ''db'' ''v5'' [cve ''CVE-4'' ''low''])"
  "lastNamed ''web'' (ContainsImages exampleBefore) = None"
  "lastNamed ''sidecar'' (ContainsImages exampleAfter) = None"
  by (simp_all add: exampleBefore_def exampleAfter_def image_def)

theorem changed_pair_cves_witness:
  "\<exists>c. CompareHelmCharts (\<lambda>l. rev) exampleBefore exampleAfter = Inr c \<and>
     lookup2 (RemovedCVEs c) ''CVE-7'' ''app'' = Some (cve ''CVE-7'' ''medium'') \<and>
     lookup2 (AddedCVEs c) ''CVE-2'' ''app'' = Some (cve ''CVE-2'' ''critical'') \<and>
     lookup2 (UnchangedCVEs c) ''CVE-1'' ''app'' = Some (cve ''CVE-1'' ''high'')"
proof -
  from changed_pair_cves[OF iteration_orders_rev example_Inr(1,2)]
  obtain c where c: "CompareHelmCharts (\<lambda>l. rev) exampleBefore exampleAfter = Inr c"
    and p: "\<And>n pair. map_of (ChangedImages c) n = Some pair \<Longrightarrow>
              (\<exists>bi ai. pair = [Some bi, Some ai] \<and> ImageName bi = n \<and> ImageName ai = n \<and>
                 Some bi \<in> set (ContainsImages exampleBefore) \<and> Some ai \<in> set (ContainsImages exampleAfter) \<and>
                 (\<forall>i v. map_of (vulns bi) i = Some v \<and> map_of (vulns ai) i = None \<longrightarrow>
                          lookup2 (RemovedCVEs c) i n = Some v) \<and>
                 (\<forall>i v. map_of (vulns ai) i = Some v \<and> map_of (vulns bi) i = None \<longrightarrow>
                          lookup2 (AddedCVEs c) i n = Some v) \<and>
                 (\<forall>i v. map_of (vulns bi) i = Some v \<and> map_of (vulns ai) i \<noteq> None \<longrightarrow>
                          lookup2 (UnchangedCVEs c) i n = Some v))"
    by blast
  let ?b = "image ''docker.io'' ''app'' ''v1'' [cve ''CVE-1'' ''high'', cve ''CVE-7'' ''medium'']"
  let ?a = "image ''docker.io'' ''app'' ''v2''
             [(cve ''CVE-1'' ''high'')\<lparr>Metadata := ''rescan''\<rparr>, cve ''CVE-2'' ''critical'']"
  have "map_of (ChangedImages c) ''app'' = Some [Some ?b, Some ?a]"
    by (simp add: Compare_ChangedImages[OF iteration_orders_rev c] example_lastNamed) (simp add: image_def)
  from p[OF this] have
    r: "\<And>i v. map_of (vulns ?b) i = Some v \<and> map_of (vulns ?a) i = None \<Longrightarrow>
                          lookup2 (RemovedCVEs c) i ''app'' = Some v" and
    a: "\<And>i v. map_of (vulns ?a) i = Some v \<and> map_of (vulns ?b) i = None \<Longrightarrow>
                          lookup2 (AddedCVEs c) i ''app'' = Some v" and
    u: "\<And>i v. map_of (vulns ?b) i = Some v \<and> map_of (vulns ?a) i \<noteq> None \<Longrightarrow>
                          lookup2 (UnchangedCVEs c) i ''app'' = Some v"
    by auto
  have "lookup2 (RemovedCVEs c) ''CVE-7'' ''app'' = Some (cve ''CVE-7'' ''medium'')"
    by (rule r) (simp add: image_def vulns_def cve_def)
  moreover have "lookup2 (AddedCVEs c) ''CVE-2'' ''app'' = Some (cve ''CVE-2'' ''critical'')"
    by (rule a) (simp add: image_def vulns_def cve_def)
  moreover have "lookup2 (UnchangedCVEs c) ''CVE-1'' ''app'' = Some (cve ''CVE-1'' ''high'')"
    by (rule u) (simp add: image_def vulns_def cve_def)
  ultimately show ?thesis using c by blast
qed

text \<open>
  C4 (the tag alone decides). For a name \<open>n\<close> present in both charts, with \<open>bi\<close> and \<open>ai\<close>
  the images indexed under \<open>n\<close> (the only ones of that name when names are unique), the
  pair is in \<open>ChangedImages\<close> iff the tags differ and in \<open>UnChangedImages\<close> iff they are
  equal, whatever the repositories and the vulnerability maps are. For an Unchanged pair
  \<open>UnchangedCVEs\<close> holds exactly the before image's findings under \<open>n\<close>, and nothing is
  recorded as added or removed under \<open>n\<close>: the two maps are not compared.
\<close>

theorem tag_decides_classification:
  assumes "iteration_orders ord"
    and "None \<notin> set (ContainsImages before)" and "None \<notin> set (ContainsImages after)"
    and "n \<in> imageNames before" and "n \<in> imageNames after"
  shows "\<exists>c bi ai. CompareHelmCharts ord before after = Inr c \<and>
           lastNamed n (ContainsImages before) = Some bi \<and>
           lastNamed n (ContainsImages after) = Some ai \<and>
           (hasKey (ChangedImages c) n \<longleftrightarrow> Tag bi \<noteq> Tag ai) \<and>
           (hasKey (UnChangedImages c) n \<longleftrightarrow> Tag bi = Tag ai) \<and>
           (Tag bi \<noteq> Tag ai \<longrightarrow> map_of (ChangedImages c) n = Some [Some bi, Some ai]) \<and>
           (Tag bi = Tag ai \<longrightarrow>
              map_of (UnChangedImages c) n = Some [Some bi, Some ai] \<and>
              (\<forall>i. lookup2 (UnchangedCVEs c) i n = map_of (vulns bi) i \<and>
                   lookup2 (AddedCVEs c) i n = None \<and>
                   lookup2 (RemovedCVEs c) i n = None))"
proof -
  from assms(2,3) obtain c where c: "CompareHelmCharts ord before after = Inr c"
    using CompareHelmCharts_Inr[of ord before after] by blast
  from assms(4,5) obtain bi ai where
    bi: "lastNamed n (ContainsImages before) = Some bi" and
    ai: "lastNamed n (ContainsImages after) = Some ai"
    using lastNamed_dom[of n before] lastNamed_dom[of n after] by auto
  note io = assms(1)
  have "hasKey (ChangedImages c) n \<longleftrightarrow> Tag bi \<noteq> Tag ai"
    by (simp add: hasKey_def Compare_ChangedImages[OF io c] bi ai)
  moreover have "hasKey (UnChangedImages c) n \<longleftrightarrow> Tag bi = Tag ai"
    by (simp add: hasKey_def Compare_UnChangedImages[OF io c] bi ai)
  moreover have "Tag bi \<noteq> Tag ai \<longrightarrow> map_of (ChangedImages c) n = Some [Some bi, Some ai]"
    by (simp add: Compare_ChangedImages[OF io c] bi ai)
  moreover have "Tag bi = Tag ai \<longrightarrow> map_of (UnChangedImages c) n = Some [Some bi, Some ai]"
    by (simp add: Compare_UnChangedImages[OF io c] bi ai)
  moreover have "Tag bi = Tag ai \<longrightarrow>
     (\<forall>i. lookup2 (UnchangedCVEs c) i n = map_of (vulns bi) i \<and>
          lookup2 (AddedCVEs c) i n = None \<and> lookup2 (RemovedCVEs c) i n = None)"
    by (simp add: Compare_UnchangedCVEs[OF io c] Compare_AddedCVEs[OF io c]
        Compare_RemovedCVEs[OF io c] bi ai)
  ultimately show ?thesis using c bi ai by blast
qed

lemma example_names:
  "''app'' \<in> imageNames exampleBefore" "''app'' \<in> imageNames exampleAfter"
  "''db'' \<in> imageNames exampleBefore" "''db'' \<in> imageNames exampleAfter"
  "''web'' \<in> imageNames exampleAfter" "''sidecar'' \<in> imageNames exampleBefore"
  by (simp_all add: imageNames_def images_def exampleBefore_def exampleAfter_def image_def)

theorem tag_decides_classification_witness:
  "\<exists>c. CompareHelmCharts (\<lambda>l. rev) exampleBefore exampleAfter = Inr c \<and>
     hasKey (UnChangedImages c) ''db'' \<and> \<not> hasKey (ChangedImages c) ''db'' \<and>
     lookup2 (UnchangedCVEs c) ''CVE-3'' ''db'' = Some (cve ''CVE-3'' ''medium'') \<and>
     lookup2 (AddedCVEs c) ''CVE-4'' ''db'' = None \<and>
     hasKey (ChangedImages c) ''app'' \<and> \<not> hasKey (UnChangedImages c) ''app''"
proof -
  from tag_decides_classification[OF iteration_orders_rev example_Inr(1,2) example_names(3,4)]
  obtain c where c: "CompareHelmCharts (\<lambda>l. rev) exampleBefore exampleAfter = Inr c"
    and db: "hasKey (UnChangedImages c) ''db''" "\<not> hasKey (ChangedImages c) ''db''"
      "lookup2 (UnchangedCVEs c) ''CVE-3'' ''db'' = Some (cve ''CVE-3'' ''medium'')"
      "lookup2 (AddedCVEs c) ''CVE-4'' ''db'' = None"
    by (auto simp: example_lastNamed image_def vulns_def cve_def)
  from tag_decides_classification[OF iteration_orders_rev example_Inr(1,2) example_names(1,2)] c
  have "hasKey (ChangedImages c) ''app''" "\<not> hasKey (UnChangedImages c) ''app''"
    by (auto simp: example_lastNamed image_def)
  with c db show ?thesis by blast
qed


text \<open>
  C2 fails as stated for an Unchanged pair: in the example charts, the image \<open>db\<close> keeps
  its tag \<open>v5\<close>, the after image's map holds \<open>CVE-4\<close>, and \<open>CVE-4\<close> is recorded under \<open>db\<close>
  in none of the three maps.
\<close>

theorem cve_partition_counterexample:
  "\<exists>c. CompareHelmCharts (\<lambda>l ks. ks) exampleBefore exampleAfter = Inr c \<and>
     map_of (UnChangedImages c) ''db'' =
       Some [Some (image ''docker.io'' ''db'' ''v5'' [cve ''CVE-3'' ''medium'']),
             Some (image ''ghcr.io'' ''db'' ''v5'' [cve ''CVE-4'' ''low''])] \<and>
     map_of (vulns (image ''ghcr.io'' ''db'' ''v5'' [cve ''CVE-4'' ''low''])) ''CVE-4''
       = Some (cve ''CVE-4'' ''low'') \<and>
     lookup2 (AddedCVEs c) ''CVE-4'' ''db'' = None \<and>
     lookup2 (RemovedCVEs c) ''CVE-4'' ''db'' = None \<and>
     lookup2 (UnchangedCVEs c) ''CVE-4'' ''db'' = None"
  by (simp add: CompareHelmCharts_def compareIndexed_def emptyComparison_def beforeStep_def
      afterStep_def compareImageVulnerabilities_def ranged_def keys_def vulns_def put2_def
      lookup2_def exampleBefore_def exampleAfter_def image_def cve_def)

text \<open>
  C2, amended (CVE partition per pair). For a Changed pair, every CVE ID in the union of the
  two images' maps is recorded under the image's name in exactly one of \<open>AddedCVEs\<close>,
  \<open>RemovedCVEs\<close>, \<open>UnchangedCVEs\<close>. For an Unchanged pair, every CVE ID of the before
  image's map is recorded in \<open>UnchangedCVEs\<close> and in no other map, and every other ID (so
  also one found only in the after image's map) is recorded in none.
\<close>

theorem cve_partition_per_pair:
  assumes "iteration_orders ord"
    and "None \<notin> set (ContainsImages before)" and "None \<notin> set (ContainsImages after)"
  shows "\<exists>c. CompareHelmCharts ord before after = Inr c \<and>
           (\<forall>n pair. map_of (ChangedImages c) n = Some pair \<longrightarrow>
              (\<exists>bi ai. pair = [Some bi, Some ai] \<and>
                 (\<forall>i. i \<in> dom (map_of (vulns bi)) \<union> dom (map_of (vulns ai)) \<longrightarrow>
                    length (filter (\<lambda>m. hasEntry m i n)
                      [AddedCVEs c, RemovedCVEs c, UnchangedCVEs c]) = 1))) \<and>
           (\<forall>n pair. map_of (UnChangedImages c) n = Some pair \<longrightarrow>
              (\<exists>bi ai. pair = [Some bi, Some ai] \<and>
                 (\<forall>i. i \<in> dom (map_of (vulns bi)) \<longrightarrow>
                    hasEntry (UnchangedCVEs c) i n \<and> \<not> hasEntry (AddedCVEs c) i n \<and>
                    \<not> hasEntry (RemovedCVEs c) i n) \<and>
                 (\<forall>i. i \<notin> dom (map_of (vulns bi)) \<longrightarrow>
                    \<not> hasEntry (UnchangedCVEs c) i n \<and> \<not> hasEntry (AddedCVEs c) i n \<and>
                    \<not> hasEntry (RemovedCVEs c) i n)))"
proof -
  from assms(2,3) obtain c where c: "CompareHelmCharts ord before after = Inr c"
    using CompareHelmCharts_Inr[of ord before after] by blast
  note io = assms(1)
  note cves = Compare_UnchangedCVEs[OF io c] Compare_AddedCVEs[OF io c] Compare_RemovedCVEs[OF io c]
  have ch: "\<exists>bi ai. pair = [Some bi, Some ai] \<and>
                 (\<forall>i. i \<in> dom (map_of (vulns bi)) \<union> dom (map_of (vulns ai)) \<longrightarrow>
                    length (filter (\<lambda>m. hasEntry m i n)
                      [AddedCVEs c, RemovedCVEs c, UnchangedCVEs c]) = 1)"
    if p: "map_of (ChangedImages c) n = Some pair" for n pair
  proof -
    from Compare_pair_Changed[OF io c p] obtain bi ai where
      pair: "pair = [Some bi, Some ai]" and
      bi: "lastNamed n (ContainsImages before) = Some bi" and
      ai: "lastNamed n (ContainsImages after) = Some ai" and
      tag: "Tag bi \<noteq> Tag ai" by blast
    have "length (filter (\<lambda>m. hasEntry m i n) [AddedCVEs c, RemovedCVEs c, UnchangedCVEs c]) = 1"
      if "i \<in> dom (map_of (vulns bi)) \<union> dom (map_of (vulns ai))" for i
      using that by (auto simp: hasEntry_def cves bi ai tag)
    with pair show ?thesis by blast
  qed
  have un: "\<exists>bi ai. pair = [Some bi, Some ai] \<and>
                 (\<forall>i. i \<in> dom (map_of (vulns bi)) \<longrightarrow>
                    hasEntry (UnchangedCVEs c) i n \<and> \<not> hasEntry (AddedCVEs c) i n \<and>
                    \<not> hasEntry (RemovedCVEs c) i n) \<and>
                 (\<forall>i. i \<notin> dom (map_of (vulns bi)) \<longrightarrow>
                    \<not> hasEntry (UnchangedCVEs c) i n \<and> \<not> hasEntry (AddedCVEs c) i n \<and>
                    \<not> hasEntry (RemovedCVEs c) i n)"
    if p: "map_of (UnChangedImages c) n = Some pair" for n pair
  proof -
    from Compare_pair_UnChanged[OF io c p] obtain bi ai where
      pair: "pair = [Some bi, Some ai]" and
      bi: "lastNamed n (ContainsImages before) = Some bi" and
      ai: "lastNamed n (ContainsImages after) = Some ai" and
      tag: "Tag bi = Tag ai" by blast
    have "hasEntry (UnchangedCVEs c) i n \<and> \<not> hasEntry (AddedCVEs c) i n \<and>
          \<not> hasEntry (RemovedCVEs c) i n" if "i \<in> dom (map_of (vulns bi))" for i
      using that by (auto simp: hasEntry_def cves bi ai tag)
    moreover have "\<not> hasEntry (UnchangedCVEs c) i n \<and> \<not> hasEntry (AddedCVEs c) i n \<and>
          \<not> hasEntry (RemovedCVEs c) i n" if "i \<notin> dom (map_of (vulns bi))" for i
      using that by (auto simp: hasEntry_def cves bi ai tag)
    ultimately show ?thesis using pair by blast
  qed
  from c ch un show ?thesis by blast
qed

theorem cve_partition_per_pair_witness:
  "\<exists>c. CompareHelmCharts (\<lambda>l. rev) exampleBefore exampleAfter = Inr c \<and>
     length (filter (\<lambda>m. hasEntry m ''CVE-2'' ''app'')
       [AddedCVEs c, RemovedCVEs c, UnchangedCVEs c]) = 1 \<and>
     length (filter (\<lambda>m. hasEntry m ''CVE-7'' ''app'')
       [AddedCVEs c, RemovedCVEs c, UnchangedCVEs c]) = 1 \<and>
     hasEntry (UnchangedCVEs c) ''CVE-3'' ''db'' \<and>
     \<not> hasEntry (AddedCVEs c) ''CVE-4'' ''db''"
proof -
  from cve_partition_per_pair[OF iteration_orders_rev example_Inr(1,2)]
  obtain c where c: "CompareHelmCharts (\<lambda>l. rev) exampleBefore exampleAfter = Inr c"
    and ch: "\<And>n pair. map_of (ChangedImages c) n = Some pair \<Longrightarrow>
              (\<exists>bi ai. pair = [Some bi, Some ai] \<and>
                 (\<forall>i. i \<in> dom (map_of (vulns bi)) \<union> dom (map_of (vulns ai)) \<longrightarrow>
                    length (filter (\<lambda>m. hasEntry m i n)
                      [AddedCVEs c, RemovedCVEs c, UnchangedCVEs c]) = 1))"
    and un: "\<And>n pair. map_of (UnChangedImages c) n = Some pair \<Longrightarrow>
              (\<exists>bi ai. pair = [Some bi, Some ai] \<and>
                 (\<forall>i. i \<in> dom (map_of (vulns bi)) \<longrightarrow>
                    hasEntry (UnchangedCVEs c) i n \<and> \<not> hasEntry (AddedCVEs c) i n \<and>
                    \<not> hasEntry (RemovedCVEs c) i n) \<and>
                 (\<forall>i. i \<notin> dom (map_of (vulns bi)) \<longrightarrow>
                    \<not> hasEntry (UnchangedCVEs c) i n \<and> \<not> hasEntry (AddedCVEs c) i n \<and>
                    \<not> hasEntry (RemovedCVEs c) i n))"
    by blast
  let ?b = "image ''docker.io'' ''app'' ''v1'' [cve ''CVE-1'' ''high'', cve ''CVE-7'' ''medium'']"
  let ?a = "image ''docker.io'' ''app'' ''v2''
             [(cve ''CVE-1'' ''high'')\<lparr>Metadata := ''rescan''\<rparr>, cve ''CVE-2'' ''critical'']"
  let ?db = "image ''docker.io'' ''db'' ''v5'' [cve ''CVE-3'' ''medium'']"
  let ?da = "image ''ghcr.io'' ''db'' ''v5'' [cve ''CVE-4'' ''low'']"
  have "map_of (ChangedImages c) ''app'' = Some [Some ?b, Some ?a]"
    by (simp add: Compare_ChangedImages[OF iteration_orders_rev c] example_lastNamed) (simp add: image_def)
  from ch[OF this] obtain bi ai where
    e: "[Some ?b, Some ?a] = [Some bi, Some ai]" and
    q: "\<forall>i. i \<in> dom (map_of (vulns bi)) \<union> dom (map_of (vulns ai)) \<longrightarrow>
            length (filter (\<lambda>m. hasEntry m i ''app'')
                      [AddedCVEs c, RemovedCVEs c, UnchangedCVEs c]) = 1"
    by blast
  from e have "bi = ?b" "ai = ?a" by simp_all
  with q have
    one: "\<And>i. i \<in> dom (map_of (vulns ?b)) \<union> dom (map_of (vulns ?a)) \<Longrightarrow>
            length (filter (\<lambda>m. hasEntry m i ''app'')
                      [AddedCVEs c, RemovedCVEs c, UnchangedCVEs c]) = 1"
    by blast
  have "map_of (UnChangedImages c) ''db'' = Some [Some ?db, Some ?da]"
    by (simp add: Compare_UnChangedImages[OF iteration_orders_rev c] example_lastNamed) (simp add: image_def)
  from un[OF this] obtain di da where
    e': "[Some ?db, Some ?da] = [Some di, Some da]" and
    q1: "\<forall>i. i \<in> dom (map_of (vulns di)) \<longrightarrow>
                    hasEntry (UnchangedCVEs c) i ''db'' \<and> \<not> hasEntry (AddedCVEs c) i ''db'' \<and>
                    \<not> hasEntry (RemovedCVEs c) i ''db''" and
    q2: "\<forall>i. i \<notin> dom (map_of (vulns di)) \<longrightarrow>
                    \<not> hasEntry (UnchangedCVEs c) i ''db'' \<and> \<not> hasEntry (AddedCVEs c) i ''db'' \<and>
                    \<not> hasEntry (RemovedCVEs c) i ''db''"
    by blast
  from e' have "di = ?db" by simp
  with q1 q2 have
    u1: "\<And>i. i \<in> dom (map_of (vulns ?db)) \<Longrightarrow> hasEntry (UnchangedCVEs c) i ''db''" and
    u2: "\<And>i. i \<notin> dom (map_of (vulns ?db)) \<Longrightarrow> \<not> hasEntry (AddedCVEs c) i ''db''"
    by blast+
  have "length (filter (\<lambda>m. hasEntry m ''CVE-2'' ''app'')
       [AddedCVEs c, RemovedCVEs c, UnchangedCVEs c]) = 1"
    by (rule one) (simp add: image_def vulns_def cve_def)
  moreover have "length (filter (\<lambda>m. hasEntry m ''CVE-7'' ''app'')
       [AddedCVEs c, RemovedCVEs c, UnchangedCVEs c]) = 1"
    by (rule one) (simp add: image_def vulns_def cve_def)
  moreover have "hasEntry (UnchangedCVEs c) ''CVE-3'' ''db''"
    by (rule u1) (simp add: image_def vulns_def cve_def)
  moreover have "\<not> hasEntry (AddedCVEs c) ''CVE-4'' ''db''"
    by (rule u2) (simp add: image_def vulns_def cve_def)
  ultimately show ?thesis using c by blast
qed

lemma keys_dom: "set (keys m) = dom (map_of m)"
  by (simp add: keys_set dom_map_of_conv_image_fst)

text \<open>
  C6 (anti-symmetry). For all charts \<open>A\<close> and \<open>B\<close> without nil entries, and whatever the
  iteration orders of the two calls are: the key set of \<open>AddedImages\<close> of
  \<open>CompareHelmCharts A B\<close> is the key set of \<open>RemovedImages\<close> of \<open>CompareHelmCharts B A\<close>, the
  key set of \<open>RemovedImages\<close> is that of the reversed \<open>AddedImages\<close>, and the same holds
  for the sets of (CVE ID, image name) entries of \<open>AddedCVEs\<close> and \<open>RemovedCVEs\<close>.
\<close>

theorem anti_symmetry:
  assumes "iteration_orders ord" and "iteration_orders ord'"
    and "None \<notin> set (ContainsImages A)" and "None \<notin> set (ContainsImages B)"
  shows "\<exists>c d. CompareHelmCharts ord A B = Inr c \<and> CompareHelmCharts ord' B A = Inr d \<and>
           set (keys (AddedImages c)) = set (keys (RemovedImages d)) \<and>
           set (keys (RemovedImages c)) = set (keys (AddedImages d)) \<and>
           {(i, n). hasEntry (AddedCVEs c) i n} = {(i, n). hasEntry (RemovedCVEs d) i n} \<and>
           {(i, n). hasEntry (RemovedCVEs c) i n} = {(i, n). hasEntry (AddedCVEs d) i n}"
proof -
  from assms(3,4) obtain c d where c: "CompareHelmCharts ord A B = Inr c"
    and d: "CompareHelmCharts ord' B A = Inr d"
    using CompareHelmCharts_Inr[of ord A B] CompareHelmCharts_Inr[of ord' B A] by blast
  note io = assms(1) and io' = assms(2)
  have "map_of (AddedImages c) = map_of (RemovedImages d)"
    by (rule ext) (simp add: Compare_AddedImages[OF io c] Compare_RemovedImages[OF io' d])
  then have 1: "set (keys (AddedImages c)) = set (keys (RemovedImages d))"
    by (simp add: keys_dom)
  have "map_of (RemovedImages c) = map_of (AddedImages d)"
    by (rule ext) (simp add: Compare_RemovedImages[OF io c] Compare_AddedImages[OF io' d])
  then have 2: "set (keys (RemovedImages c)) = set (keys (AddedImages d))"
    by (simp add: keys_dom)
  have "lookup2 (AddedCVEs c) i n = lookup2 (RemovedCVEs d) i n" for i n
    by (auto simp: Compare_AddedCVEs[OF io c] Compare_RemovedCVEs[OF io' d] split: option.splits)
  then have 3: "{(i, n). hasEntry (AddedCVEs c) i n} = {(i, n). hasEntry (RemovedCVEs d) i n}"
    by (simp add: hasEntry_def)
  have "lookup2 (RemovedCVEs c) i n = lookup2 (AddedCVEs d) i n" for i n
    by (auto simp: Compare_RemovedCVEs[OF io c] Compare_AddedCVEs[OF io' d] split: option.splits)
  then have 4: "{(i, n). hasEntry (RemovedCVEs c) i n} = {(i, n). hasEntry (AddedCVEs d) i n}"
    by (simp add: hasEntry_def)
  from c d 1 2 3 4 show ?thesis by blast
qed

theorem anti_symmetry_witness:
  "\<exists>c d. CompareHelmCharts (\<lambda>l. rev) exampleBefore exampleAfter = Inr c \<and>
         CompareHelmCharts (\<lambda>l ks. ks) exampleAfter exampleBefore = Inr d \<and>
         set (keys (AddedImages c)) = set (keys (RemovedImages d)) \<and>
         set (keys (RemovedImages c)) = set (keys (AddedImages d)) \<and>
         {(i, n). hasEntry (AddedCVEs c) i n} = {(i, n). hasEntry (RemovedCVEs d) i n} \<and>
         {(i, n). hasEntry (RemovedCVEs c) i n} = {(i, n). hasEntry (AddedCVEs d) i n}"
  by (rule anti_symmetry[OF iteration_orders_rev iteration_orders_id example_Inr(1,2)])


text \<open>
  C9 fails as stated: \<open>exampleMalformed\<close> names the image \<open>app\<close> twice, and its second
  \<open>app\<close> has a nil vulnerability map; the comparison with \<open>exampleAfter\<close> does not fail. It
  returns a comparison in which the second \<open>app\<close> stands for the chart, and both findings of
  the after image count as added.
\<close>

theorem malformed_snapshot_counterexample:
  "\<not> distinct (map ImageName (images exampleMalformed)) \<and>
   Vulnerabilities (images exampleMalformed ! 1) = None \<and>
   (\<exists>c. CompareHelmCharts (\<lambda>l ks. ks) exampleMalformed exampleAfter = Inr c \<and>
        map_of (ChangedImages c) ''app'' =
          Some [Some \<lparr>Repository = ''docker.io'', Tag = ''v3'', ImageName = ''app'',
                      Vulnerabilities = None\<rparr>,
                Some (image ''docker.io'' ''app'' ''v2''
                        [(cve ''CVE-1'' ''high'')\<lparr>Metadata := ''rescan''\<rparr>, cve ''CVE-2'' ''critical''])] \<and>
        lookup2 (AddedCVEs c) ''CVE-1'' ''app'' = Some ((cve ''CVE-1'' ''high'')\<lparr>Metadata := ''rescan''\<rparr>))"
  by (simp add: CompareHelmCharts_def compareIndexed_def emptyComparison_def beforeStep_def
      afterStep_def compareImageVulnerabilities_def ranged_def keys_def vulns_def put2_def
      lookup2_def exampleMalformed_def exampleAfter_def image_def cve_def images_def)

lemma lastNamed_map:
  "lastNamed n (map (map_option f) imgs) = map_option f (lastNamed n imgs)"
  if "\<And>img. ImageName (f img) = ImageName img"
  by (induction imgs) (auto simp: that split: option.splits)

lemma withEmptyMaps_lastNamed:
  "lastNamed n (ContainsImages (withEmptyMaps chart)) =
     map_option (\<lambda>img. img\<lparr>Vulnerabilities := Some (vulns img)\<rparr>) (lastNamed n (ContainsImages chart))"
  by (simp add: withEmptyMaps_def lastNamed_map)

lemma withEmptyMaps_nonnil:
  "None \<in> set (ContainsImages (withEmptyMaps chart)) \<longleftrightarrow> None \<in> set (ContainsImages chart)"
  by (auto simp: withEmptyMaps_def)

lemma vulns_withEmpty: "vulns (img\<lparr>Vulnerabilities := Some (vulns img)\<rparr>) = vulns img"
  by (simp add: vulns_def)

text \<open>
  C9, amended. \<open>CompareHelmCharts\<close> has no way to reject a snapshot. It returns a comparison
  exactly when neither slice holds a nil image pointer (on which it panics). Of several
  images with one name the last one in the slice is the one classified and compared
  (\<open>lastNamed\<close>); the earlier ones are ignored. A nil vulnerability map is read as an empty
  map: replacing every nil map by an empty one changes neither the classification of any
  image name nor any CVE entry.
\<close>

theorem malformed_snapshots_are_compared:
  assumes "iteration_orders ord"
  shows "((\<exists>c. CompareHelmCharts ord before after = Inr c) \<longleftrightarrow>
            None \<notin> set (ContainsImages before) \<and> None \<notin> set (ContainsImages after)) \<and>
         (\<forall>c. CompareHelmCharts ord before after = Inr c \<longrightarrow>
            (\<forall>n. map_of (RemovedImages c) n =
                   (case lastNamed n (ContainsImages before) of
                      None \<Rightarrow> None
                    | Some bi \<Rightarrow> if lastNamed n (ContainsImages after) = None then Some [Some bi] else None) \<and>
                 map_of (AddedImages c) n =
                   (case lastNamed n (ContainsImages after) of
                      None \<Rightarrow> None
                    | Some ai \<Rightarrow> if lastNamed n (ContainsImages before) = None then Some [Some ai] else None) \<and>
                 map_of (ChangedImages c) n =
                   (case lastNamed n (ContainsImages before) of
                      None \<Rightarrow> None
                    | Some bi \<Rightarrow>
                       (case lastNamed n (ContainsImages after) of
                          None \<Rightarrow> None
                        | Some ai \<Rightarrow> if Tag bi \<noteq> Tag ai then Some [Some bi, Some ai] else None)) \<and>
                 map_of (UnChangedImages c) n =
                   (case lastNamed n (ContainsImages before) of
                      None \<Rightarrow> None
                    | Some bi \<Rightarrow>
                       (case lastNamed n (ContainsImages after) of
                          None \<Rightarrow> None
                        | Some ai \<Rightarrow> if Tag bi \<noteq> Tag ai then None else Some [Some bi, Some ai]))) \<and>
            (\<exists>c'. CompareHelmCharts ord (withEmptyMaps before) (withEmptyMaps after) = Inr c' \<and>
               (\<forall>i n. lookup2 (AddedCVEs c') i n = lookup2 (AddedCVEs c) i n \<and>
                      lookup2 (RemovedCVEs c') i n = lookup2 (RemovedCVEs c) i n \<and>
                      lookup2 (UnchangedCVEs c') i n = lookup2 (UnchangedCVEs c) i n) \<and>
               (\<forall>n. hasKey (AddedImages c') n = hasKey (AddedImages c) n \<and>
                    hasKey (RemovedImages c') n = hasKey (RemovedImages c) n \<and>
                    hasKey (ChangedImages c') n = hasKey (ChangedImages c) n \<and>
                    hasKey (UnChangedImages c') n = hasKey (UnChangedImages c) n)))"
proof -
  note io = assms
  have 1: "(\<exists>c. CompareHelmCharts ord before after = Inr c) \<longleftrightarrow>
            None \<notin> set (ContainsImages before) \<and> None \<notin> set (ContainsImages after)"
    by (rule CompareHelmCharts_Inr)
  have 2: "map_of (RemovedImages c) n =
                   (case lastNamed n (ContainsImages before) of
                      None \<Rightarrow> None
                    | Some bi \<Rightarrow> if lastNamed n (ContainsImages after) = None then Some [Some bi] else None) \<and>
                 map_of (AddedImages c) n =
                   (case lastNamed n (ContainsImages after) of
                      None \<Rightarrow> None
                    | Some ai \<Rightarrow> if lastNamed n (ContainsImages before) = None then Some [Some ai] else None) \<and>
                 map_of (ChangedImages c) n =
                   (case lastNamed n (ContainsImages before) of
                      None \<Rightarrow> None
                    | Some bi \<Rightarrow>
                       (case lastNamed n (ContainsImages after) of
                          None \<Rightarrow> None
                        | Some ai \<Rightarrow> if Tag bi \<noteq> Tag ai then Some [Some bi, Some ai] else None)) \<and>
                 map_of (UnChangedImages c) n =
                   (case lastNamed n (ContainsImages before) of
                      None \<Rightarrow> None
                    | Some bi \<Rightarrow>
                       (case lastNamed n (ContainsImages after) of
                          None \<Rightarrow> None
                        | Some ai \<Rightarrow> if Tag bi \<noteq> Tag ai then None else Some [Some bi, Some ai]))"
    if c: "CompareHelmCharts ord before after = Inr c" for c n
    using Compare_RemovedImages[OF io c] Compare_AddedImages[OF io c]
      Compare_ChangedImages[OF io c] Compare_UnChangedImages[OF io c] by blast
  have 3: "\<exists>c'. CompareHelmCharts ord (withEmptyMaps before) (withEmptyMaps after) = Inr c' \<and>
               (\<forall>i n. lookup2 (AddedCVEs c') i n = lookup2 (AddedCVEs c) i n \<and>
                      lookup2 (RemovedCVEs c') i n = lookup2 (RemovedCVEs c) i n \<and>
                      lookup2 (UnchangedCVEs c') i n = lookup2 (UnchangedCVEs c) i n) \<and>
               (\<forall>n. hasKey (AddedImages c') n = hasKey (AddedImages c) n \<and>
                    hasKey (RemovedImages c') n = hasKey (RemovedImages c) n \<and>
                    hasKey (ChangedImages c') n = hasKey (ChangedImages c) n \<and>
                    hasKey (UnChangedImages c') n = hasKey (UnChangedImages c) n)"
    if c: "CompareHelmCharts ord before after = Inr c" for c
  proof -
    from c have "None \<notin> set (ContainsImages before) \<and> None \<notin> set (ContainsImages after)"
      using 1 by blast
    then obtain c' where c': "CompareHelmCharts ord (withEmptyMaps before) (withEmptyMaps after) = Inr c'"
      using CompareHelmCharts_Inr[of ord "withEmptyMaps before" "withEmptyMaps after"]
      by (auto simp: withEmptyMaps_nonnil)
    have "lookup2 (AddedCVEs c') i n = lookup2 (AddedCVEs c) i n" for i n
      by (auto simp: Compare_AddedCVEs[OF io c] Compare_AddedCVEs[OF io c'] withEmptyMaps_lastNamed
          vulns_withEmpty split: option.splits)
    moreover have "lookup2 (RemovedCVEs c') i n = lookup2 (RemovedCVEs c) i n" for i n
      by (auto simp: Compare_RemovedCVEs[OF io c] Compare_RemovedCVEs[OF io c'] withEmptyMaps_lastNamed
          vulns_withEmpty split: option.splits)
    moreover have "lookup2 (UnchangedCVEs c') i n = lookup2 (UnchangedCVEs c) i n" for i n
      by (auto simp: Compare_UnchangedCVEs[OF io c] Compare_UnchangedCVEs[OF io c'] withEmptyMaps_lastNamed
          vulns_withEmpty split: option.splits)
    moreover have "hasKey (AddedImages c') n = hasKey (AddedImages c) n" for n
      by (auto simp: hasKey_def Compare_AddedImages[OF io c] Compare_AddedImages[OF io c']
          withEmptyMaps_lastNamed split: option.splits)
    moreover have "hasKey (RemovedImages c') n = hasKey (RemovedImages c) n" for n
      by (auto simp: hasKey_def Compare_RemovedImages[OF io c] Compare_RemovedImages[OF io c']
          withEmptyMaps_lastNamed split: option.splits)
    moreover have "hasKey (ChangedImages c') n = hasKey (ChangedImages c) n" for n
      by (auto simp: hasKey_def Compare_ChangedImages[OF io c] Compare_ChangedImages[OF io c']
          withEmptyMaps_lastNamed split: option.splits)
    moreover have "hasKey (UnChangedImages c') n = hasKey (UnChangedImages c) n" for n
      by (auto simp: hasKey_def Compare_UnChangedImages[OF io c] Compare_UnChangedImages[OF io c']
          withEmptyMaps_lastNamed split: option.splits)
    ultimately show ?thesis using c' by blast
  qed
  from 1 2 3 show ?thesis by blast
qed

theorem malformed_snapshots_are_compared_witness:
  "\<exists>c. CompareHelmCharts (\<lambda>l. rev) exampleMalformed exampleAfter = Inr c \<and>
     map_of (ChangedImages c) ''app'' =
       Some [Some \<lparr>Repository = ''docker.io'', Tag = ''v3'', ImageName = ''app'',
                   Vulnerabilities = None\<rparr>,
             Some (image ''docker.io'' ''app'' ''v2''
                     [(cve ''CVE-1'' ''high'')\<lparr>Metadata := ''rescan''\<rparr>, cve ''CVE-2'' ''critical''])]"
proof -
  note t = malformed_snapshots_are_compared[OF iteration_orders_rev, of exampleMalformed exampleAfter]
  from t example_Inr(2,3) obtain c where c: "CompareHelmCharts (\<lambda>l. rev) exampleMalformed exampleAfter = Inr c"
    by blast
  with t have "map_of (ChangedImages c) ''app'' =
                   (case lastNamed ''app'' (ContainsImages exampleMalformed) of
                      None \<Rightarrow> None
                    | Some bi \<Rightarrow>
                       (case lastNamed ''app'' (ContainsImages exampleAfter) of
                          None \<Rightarrow> None
                        | Some ai \<Rightarrow> if Tag bi \<noteq> Tag ai then Some [Some bi, Some ai] else None))"
    by blast
  then have "map_of (ChangedImages c) ''app'' =
       Some [Some \<lparr>Repository = ''docker.io'', Tag = ''v3'', ImageName = ''app'',
                   Vulnerabilities = None\<rparr>,
             Some (image ''docker.io'' ''app'' ''v2''
                     [(cve ''CVE-1'' ''high'')\<lparr>Metadata := ''rescan''\<rparr>, cve ''CVE-2'' ''critical''])]"
    by (simp add: exampleMalformed_def exampleAfter_def image_def)
  with c show ?thesis by blast
qed


section \<open>Properties of the reports\<close>

lemma count_incr: "count (incr m k) s = (if s = k then count m k + 1 else count m s)"
  by (simp add: count_def incr_def update_conv')

lemma fold_incr:
  "count (fold (\<lambda>(_, vuln) m. incr m (Severity vuln)) es m) s =
     count m s + int (length (filter (\<lambda>(_, v). Severity v = s) es))"
  by (induction es arbitrary: m) (auto simp: count_incr)

lemma length_filter_iteration:
  assumes "iteration_order ord" and "distinct ks"
  shows "length (filter P (ord ks)) = length (filter P ks)"
proof -
  from assms have d: "distinct (ord ks)" and s: "set (ord ks) = set ks"
    by (simp_all add: iteration_order_def)
  show ?thesis
    by (simp add: distinct_length_filter[OF d] distinct_length_filter[OF assms(2)] s)
qed

lemma findings_ranged:
  assumes "iteration_order ord"
  shows "int (length (filter (\<lambda>(_, v). Severity v = s) (ranged ord (vulns img)))) = findings s img"
proof -
  let ?m = "vulns img"
  have S: "set (ord (keys ?m)) = set (keys ?m)"
    using assms keys_distinct[of ?m] by (simp add: iteration_order_def)
  have "length (filter (\<lambda>(_, v). Severity v = s) (ranged ord ?m)) =
        length (filter (\<lambda>k. Severity (the (map_of ?m k)) = s) (ord (keys ?m)))"
    by (simp add: ranged_eq[OF assms] filter_map comp_def)
  also have "filter (\<lambda>k. Severity (the (map_of ?m k)) = s) (ord (keys ?m)) =
             filter (\<lambda>k. map_option Severity (map_of ?m k) = Some s) (ord (keys ?m))"
  proof (rule filter_cong[OF refl])
    fix k assume "k \<in> set (ord (keys ?m))"
    then have "k \<in> dom (map_of ?m)"
      using S by (simp add: keys_set dom_map_of_conv_image_fst)
    then show "(Severity (the (map_of ?m k)) = s) = (map_option Severity (map_of ?m k) = Some s)"
      by auto
  qed
  also have "length \<dots> = length (filter (\<lambda>k. map_option Severity (map_of ?m k) = Some s) (keys ?m))"
    by (rule length_filter_iteration[OF assms keys_distinct])
  finally show ?thesis by (simp add: findings_def)
qed

lemma countSeverities_Inl:
  "None \<in> set imgs \<Longrightarrow> countSeverities ord line k imgs m = Inl NilPointerDereference"
proof (induction imgs arbitrary: m k)
  case Nil
  then show ?case by simp
next
  case (Cons p imgs)
  then show ?case by (cases p) auto
qed

lemma countSeverities_Inr:
  assumes "iteration_orders ord" and "None \<notin> set imgs"
  shows "\<exists>m'. countSeverities ord line k imgs m = Inr m' \<and>
           (\<forall>s. count m' s = count m s +
              sum_list (map (findings s) (concat (map (\<lambda>p. case p of None \<Rightarrow> [] | Some img \<Rightarrow> [img]) imgs))))"
  using assms(2)
proof (induction imgs arbitrary: m k)
  case Nil
  then show ?case by simp
next
  case (Cons p imgs)
  then obtain img where p: "p = Some img" by (cases p) auto
  let ?m1 = "fold (\<lambda>(_, vuln) m. incr m (Severity vuln)) (ranged (ord [line, digits k]) (vulns img)) m"
  from Cons.prems have "None \<notin> set imgs" by simp
  from Cons.IH[OF this, of "Suc k" ?m1] obtain m' where
    m': "countSeverities ord line (Suc k) imgs ?m1 = Inr m'" and
    cnt: "\<And>s. count m' s = count ?m1 s +
              sum_list (map (findings s) (concat (map (\<lambda>p. case p of None \<Rightarrow> [] | Some img \<Rightarrow> [img]) imgs)))"
    by blast
  have "count ?m1 s = count m s + findings s img" for s
    by (simp add: fold_incr findings_ranged[OF iteration_ordersD[OF assms(1)]])
  with m' cnt show ?case by (simp add: p)
qed

lemma count_Nil: "count [] s = 0"
  by (simp add: count_def)

lemma countSeverities_chart:
  assumes "iteration_orders ord" and "None \<notin> set (ContainsImages chart)"
  obtains m where "countSeverities ord line 0 (ContainsImages chart) [] = Inr m"
    and "\<And>s. count m s = countBySeverity chart s"
  using countSeverities_Inr[OF assms, of line 0 "[]"]
  by (auto simp: count_Nil countBySeverity_def images_def)

lemma generateJSONSeverityCounts_eq:
  assumes "iteration_orders ord"
    and "None \<notin> set (ContainsImages (Before c))" and "None \<notin> set (ContainsImages (After c))"
  shows "generateJSONSeverityCounts ord c =
     Inr (map (\<lambda>s. \<lparr>SeverityLabel = s, Current = countBySeverity (After c) s,
                    Previous = countBySeverity (Before c) s,
                    Difference = countBySeverity (After c) s - countBySeverity (Before c) s\<rparr>)
            [''critical'', ''high'', ''medium'', ''low''])"
proof -
  from countSeverities_chart[OF assms(1,2), of "''530''"] obtain pm where
    pm: "countSeverities ord ''530'' 0 (ContainsImages (Before c)) [] = Inr pm"
    and pc: "\<And>s. count pm s = countBySeverity (Before c) s" by blast
  from countSeverities_chart[OF assms(1,3), of "''535''"] obtain cm where
    cm: "countSeverities ord ''535'' 0 (ContainsImages (After c)) [] = Inr cm"
    and cc: "\<And>s. count cm s = countBySeverity (After c) s" by blast
  show ?thesis
    by (simp add: generateJSONSeverityCounts_def pm cm pc cc severities_def Let_def)
qed

lemma markdownSeverityTable_eq:
  assumes "iteration_orders ord"
    and "None \<notin> set (ContainsImages (Before c))" and "None \<notin> set (ContainsImages (After c))"
  shows "markdownSeverityTable ord c =
     Inr (''### CVE by Severity\<newline>\<newline>''
          @ ''| Severity | Count | Prev Count | Difference |\<newline>''
          @ ''|----------|-------|------------|------------|\<newline>''
          @ concat (map (\<lambda>s. ''| '' @ s @ '' | '' @ fmt_d (countBySeverity (After c) s) @ '' | ''
                            @ fmt_d (countBySeverity (Before c) s) @ '' | ''
                            @ fmt_plus_d (countBySeverity (After c) s - countBySeverity (Before c) s)
                            @ '' |\<newline>'')
                      [''critical'', ''high'', ''medium'', ''low''])
          @ ''\<newline>\<newline>'')"
proof -
  from countSeverities_chart[OF assms(1,2), of "''391''"] obtain pm where
    pm: "countSeverities ord ''391'' 0 (ContainsImages (Before c)) [] = Inr pm"
    and pc: "\<And>s. count pm s = countBySeverity (Before c) s" by blast
  from countSeverities_chart[OF assms(1,3), of "''396''"] obtain cm where
    cm: "countSeverities ord ''396'' 0 (ContainsImages (After c)) [] = Inr cm"
    and cc: "\<And>s. count cm s = countBySeverity (After c) s" by blast
  show ?thesis
    by (simp add: markdownSeverityTable_def markdownSeverityRow_def pm cm pc cc severities_def Let_def)
qed

lemma collect_Inr:
  assumes "\<And>x. x \<in> set xs \<Longrightarrow> f x = Inr (g x)"
  shows "collect f xs = Inr (map g xs)"
  using assms by (induction xs) auto

lemmas compare_defs = CompareHelmCharts_def compareIndexed_def emptyComparison_def beforeStep_def
  afterStep_def compareImageVulnerabilities_def ranged_def keys_def vulns_def put2_def lookup2_def

lemmas render_defs = generateMarkdownReport_def markdownSeverityTable_def markdownSeverityRow_def
  markdownImageRows_def mdAdded_def mdRemoved_def mdPair_def elem_def sortAndFormatCVEs_def
  collectCVEs_def formatCVEs_def sortCVEs_def cveLess_def severityRank_def GetSeverity_def within_def
  generateJSONImageChanges_def jsonAdded_def jsonRemoved_def jsonChanged_def jsonUnchanged_def
  generateJSONSeverityCounts_def severities_def count_def incr_def fmt_d_def fmt_plus_d_def
  digits.simps digit_def cveTableHeader_def

lemma mset_ranged:
  assumes "iteration_order o1" and "iteration_order o2"
  shows "mset (ranged o1 m) = mset (ranged o2 m)"
proof -
  have "mset (o1 (keys m)) = mset (o2 (keys m))"
    using assms keys_distinct[of m]
    by (simp add: iteration_order_def set_eq_iff_mset_eq_distinct[symmetric])
  then have "image_mset (\<lambda>k. (k, the (map_of m k))) (mset (o1 (keys m))) =
             image_mset (\<lambda>k. (k, the (map_of m k))) (mset (o2 (keys m)))"
    by simp
  then show ?thesis
    by (simp add: ranged_eq[OF assms(1)] ranged_eq[OF assms(2)])
qed

lemma collect_total:
  assumes "\<And>x. x \<in> set xs \<Longrightarrow> \<not> isl (f x)"
  shows "collect f xs = Inr (map (projr \<circ> f) xs)"
  by (rule collect_Inr) (use assms in auto)

lemma produced_Added:
  assumes "iteration_orders ord" and "CompareHelmCharts ord b a = Inr c"
    and "iteration_order o1" and "(k, l) \<in> set (ranged o1 (AddedImages c))"
  shows "\<exists>i0. l = [Some i0]"
  using ranged_entry[OF assms(3,4)] unfolding Compare_AddedImages[OF assms(1,2)]
  by (auto split: option.splits if_splits)

lemma produced_Removed:
  assumes "iteration_orders ord" and "CompareHelmCharts ord b a = Inr c"
    and "iteration_order o1" and "(k, l) \<in> set (ranged o1 (RemovedImages c))"
  shows "\<exists>i0. l = [Some i0]"
  using ranged_entry[OF assms(3,4)] unfolding Compare_RemovedImages[OF assms(1,2)]
  by (auto split: option.splits if_splits)

lemma produced_Changed:
  assumes "iteration_orders ord" and "CompareHelmCharts ord b a = Inr c"
    and "iteration_order o1" and "(k, l) \<in> set (ranged o1 (ChangedImages c))"
  shows "\<exists>i0 i1. l = [Some i0, Some i1]"
  using ranged_entry[OF assms(3,4)] unfolding Compare_ChangedImages[OF assms(1,2)]
  by (auto split: option.splits if_splits)

lemma produced_UnChanged:
  assumes "iteration_orders ord" and "CompareHelmCharts ord b a = Inr c"
    and "iteration_order o1" and "(k, l) \<in> set (ranged o1 (UnChangedImages c))"
  shows "\<exists>i0 i1. l = [Some i0, Some i1]"
  using ranged_entry[OF assms(3,4)] unfolding Compare_UnChangedImages[OF assms(1,2)]
  by (auto split: option.splits if_splits)

lemma markdownImageRows_produced:
  assumes io: "iteration_orders ord" and c: "CompareHelmCharts ord b a = Inr c"
    and o1s: "iteration_orders o1"
  shows "markdownImageRows o1 c =
     Inr (map (projr \<circ> mdAdded) (ranged (o1 [''418'']) (AddedImages c))
          @ map (projr \<circ> mdRemoved) (ranged (o1 [''423'']) (RemovedImages c))
          @ map (projr \<circ> mdPair ''Changed'') (ranged (o1 [''428'']) (ChangedImages c))
          @ map (projr \<circ> mdPair ''Unchanged'') (ranged (o1 [''433'']) (UnChangedImages c)))"
proof -
  note o1 = iteration_ordersD[OF o1s]
  have "collect mdAdded (ranged (o1 [''418'']) (AddedImages c)) = Inr (map (projr \<circ> mdAdded) (ranged (o1 [''418'']) (AddedImages c)))"
    by (rule collect_total) (use produced_Added[OF io c o1] in \<open>fastforce simp: mdAdded_def elem_def\<close>)
  moreover have "collect mdRemoved (ranged (o1 [''423'']) (RemovedImages c)) = Inr (map (projr \<circ> mdRemoved) (ranged (o1 [''423'']) (RemovedImages c)))"
    by (rule collect_total) (use produced_Removed[OF io c o1] in \<open>fastforce simp: mdRemoved_def elem_def\<close>)
  moreover have "collect (mdPair ''Changed'') (ranged (o1 [''428'']) (ChangedImages c)) =
      Inr (map (projr \<circ> mdPair ''Changed'') (ranged (o1 [''428'']) (ChangedImages c)))"
    by (rule collect_total) (use produced_Changed[OF io c o1] in \<open>fastforce simp: mdPair_def elem_def\<close>)
  moreover have "collect (mdPair ''Unchanged'') (ranged (o1 [''433'']) (UnChangedImages c)) =
      Inr (map (projr \<circ> mdPair ''Unchanged'') (ranged (o1 [''433'']) (UnChangedImages c)))"
    by (rule collect_total) (use produced_UnChanged[OF io c o1] in \<open>fastforce simp: mdPair_def elem_def\<close>)
  ultimately show ?thesis by (simp add: markdownImageRows_def)
qed

lemma generateJSONImageChanges_produced:
  assumes io: "iteration_orders ord" and c: "CompareHelmCharts ord b a = Inr c"
    and o1s: "iteration_orders o1"
  shows "generateJSONImageChanges o1 c =
     Inr (map (projr \<circ> jsonAdded) (ranged (o1 [''558'']) (AddedImages c))
          @ map (projr \<circ> jsonRemoved) (ranged (o1 [''568'']) (RemovedImages c))
          @ map (projr \<circ> jsonChanged) (ranged (o1 [''578'']) (ChangedImages c))
          @ map (projr \<circ> jsonUnchanged) (ranged (o1 [''590'']) (UnChangedImages c)))"
proof -
  note o1 = iteration_ordersD[OF o1s]
  have "collect jsonAdded (ranged (o1 [''558'']) (AddedImages c)) = Inr (map (projr \<circ> jsonAdded) (ranged (o1 [''558'']) (AddedImages c)))"
    by (rule collect_total) (use produced_Added[OF io c o1] in \<open>fastforce simp: jsonAdded_def elem_def\<close>)
  moreover have "collect jsonRemoved (ranged (o1 [''568'']) (RemovedImages c)) = Inr (map (projr \<circ> jsonRemoved) (ranged (o1 [''568'']) (RemovedImages c)))"
    by (rule collect_total) (use produced_Removed[OF io c o1] in \<open>fastforce simp: jsonRemoved_def elem_def\<close>)
  moreover have "collect jsonChanged (ranged (o1 [''578'']) (ChangedImages c)) =
      Inr (map (projr \<circ> jsonChanged) (ranged (o1 [''578'']) (ChangedImages c)))"
    by (rule collect_total) (use produced_Changed[OF io c o1] in \<open>fastforce simp: jsonChanged_def elem_def\<close>)
  moreover have "collect jsonUnchanged (ranged (o1 [''590'']) (UnChangedImages c)) =
      Inr (map (projr \<circ> jsonUnchanged) (ranged (o1 [''590'']) (UnChangedImages c)))"
    by (rule collect_total) (use produced_UnChanged[OF io c o1] in \<open>fastforce simp: jsonUnchanged_def elem_def\<close>)
  ultimately show ?thesis by (simp add: generateJSONImageChanges_def)
qed

lemma fmt_plus_d_sign:
  "fmt_plus_d d = (if d < 0 then CHR ''-'' else CHR ''+'') # digits (nat \<bar>d\<bar>)"
  by (simp add: fmt_plus_d_def)

text \<open>
  C7 (severity summary). For the comparison of two charts without nil entries, rendered
  under any iterations: the JSON severity counts are the four rows critical, high, medium,
  low in this order, with \<open>Current\<close> and \<open>Previous\<close> the number of findings of that severity
  over all images of the after and of the before chart, and \<open>Difference\<close> their difference.
  The Markdown report is its title, the severity table with exactly these four rows in this
  order and with the same counts, then the images table and the three CVE tables; the
  difference is printed by \<open>%+d\<close>, that is with a sign in every case (\<open>+3\<close>, \<open>-1\<close>, \<open>+0\<close>). The
  JSON document itself is the serialisation of the rows by \<open>json.MarshalIndent\<close>, which is
  not modelled.
\<close>

theorem severity_summary:
  assumes "iteration_orders ord" and "iteration_orders ord'"
    and "None \<notin> set (ContainsImages before)" and "None \<notin> set (ContainsImages after)"
  shows "\<exists>c. CompareHelmCharts ord before after = Inr c \<and>
     generateJSONSeverityCounts ord' c =
       Inr (map (\<lambda>s. \<lparr>SeverityLabel = s, Current = countBySeverity after s,
                      Previous = countBySeverity before s,
                      Difference = countBySeverity after s - countBySeverity before s\<rparr>)
              [''critical'', ''high'', ''medium'', ''low'']) \<and>
     (\<exists>imageRows. markdownImageRows ord' c = Inr imageRows \<and>
        generateMarkdownReport title ord' c =
        Inr (''## Helm Chart Comparison Report ''
             @ HelmRepo before @ ''/'' @ Name before @ ''@'' @ Version before @ '' to ''
             @ HelmRepo after @ ''/'' @ Name after @ ''@'' @ Version after @ ''\<newline>\<newline>''
             @ ''### CVE by Severity\<newline>\<newline>''
             @ ''| Severity | Count | Prev Count | Difference |\<newline>''
             @ ''|----------|-------|------------|------------|\<newline>''
             @ concat (map (\<lambda>s. ''| '' @ s @ '' | '' @ fmt_d (countBySeverity after s) @ '' | ''
                              @ fmt_d (countBySeverity before s) @ '' | ''
                              @ fmt_plus_d (countBySeverity after s - countBySeverity before s)
                              @ '' |\<newline>'')
                        [''critical'', ''high'', ''medium'', ''low''])
             @ ''\<newline>\<newline>''
             @ ''### Images\<newline>\<newline>''
             @ ''| Image Name | Status | Before Repo | After Repo | Before Tag | After Tag |\<newline>''
             @ ''|------------|--------|-------------|------------|------------|-----------|\<newline>''
             @ Join imageRows ''\<newline>'' @ ''\<newline>\<newline>''
             @ ''### Unchanged CVEs\<newline>\<newline>''
             @ sortAndFormatCVEs title (within ''443'' ord') (UnchangedCVEs c) @ ''\<newline>\<newline>''
             @ ''### Added CVEs\<newline>\<newline>''
             @ sortAndFormatCVEs title (within ''447'' ord') (AddedCVEs c) @ ''\<newline>\<newline>''
             @ ''### Removed CVEs\<newline>\<newline>''
             @ sortAndFormatCVEs title (within ''451'' ord') (RemovedCVEs c) @ ''\<newline>'')) \<and>
     (\<forall>d. fmt_plus_d d = (if d < 0 then CHR ''-'' else CHR ''+'') # digits (nat \<bar>d\<bar>)) \<and>
     fmt_plus_d 3 = ''+3'' \<and> fmt_plus_d (- 1) = ''-1'' \<and> fmt_plus_d 0 = ''+0''"
proof -
  from assms(3,4) obtain c where c: "CompareHelmCharts ord before after = Inr c"
    using CompareHelmCharts_Inr[of ord before after] by blast
  note ba = Compare_Before_After[OF c]
  have nn: "None \<notin> set (ContainsImages (Before c))" "None \<notin> set (ContainsImages (After c))"
    using assms(3,4) by (simp_all add: ba)
  have j: "generateJSONSeverityCounts ord' c =
       Inr (map (\<lambda>s. \<lparr>SeverityLabel = s, Current = countBySeverity after s,
                      Previous = countBySeverity before s,
                      Difference = countBySeverity after s - countBySeverity before s\<rparr>)
              [''critical'', ''high'', ''medium'', ''low''])"
    using generateJSONSeverityCounts_eq[OF assms(2) nn] by (simp add: ba)
  obtain imageRows where r: "markdownImageRows ord' c = Inr imageRows"
    using markdownImageRows_produced[OF assms(1) c assms(2)] by blast
  have m: "generateMarkdownReport title ord' c =
        Inr (''## Helm Chart Comparison Report ''
             @ HelmRepo before @ ''/'' @ Name before @ ''@'' @ Version before @ '' to ''
             @ HelmRepo after @ ''/'' @ Name after @ ''@'' @ Version after @ ''\<newline>\<newline>''
             @ ''### CVE by Severity\<newline>\<newline>''
             @ ''| Severity | Count | Prev Count | Difference |\<newline>''
             @ ''|----------|-------|------------|------------|\<newline>''
             @ concat (map (\<lambda>s. ''| '' @ s @ '' | '' @ fmt_d (countBySeverity after s) @ '' | ''
                              @ fmt_d (countBySeverity before s) @ '' | ''
                              @ fmt_plus_d (countBySeverity after s - countBySeverity before s)
                              @ '' |\<newline>'')
                        [''critical'', ''high'', ''medium'', ''low''])
             @ ''\<newline>\<newline>''
             @ ''### Images\<newline>\<newline>''
             @ ''| Image Name | Status | Before Repo | After Repo | Before Tag | After Tag |\<newline>''
             @ ''|------------|--------|-------------|------------|------------|-----------|\<newline>''
             @ Join imageRows ''\<newline>'' @ ''\<newline>\<newline>''
             @ ''### Unchanged CVEs\<newline>\<newline>''
             @ sortAndFormatCVEs title (within ''443'' ord') (UnchangedCVEs c) @ ''\<newline>\<newline>''
             @ ''### Added CVEs\<newline>\<newline>''
             @ sortAndFormatCVEs title (within ''447'' ord') (AddedCVEs c) @ ''\<newline>\<newline>''
             @ ''### Removed CVEs\<newline>\<newline>''
             @ sortAndFormatCVEs title (within ''451'' ord') (RemovedCVEs c) @ ''\<newline>'')"
    unfolding generateMarkdownReport_def markdownSeverityTable_eq[OF assms(2) nn] r
    by (simp add: ba)
  have s: "\<forall>d. fmt_plus_d d = (if d < 0 then CHR ''-'' else CHR ''+'') # digits (nat \<bar>d\<bar>)"
    by (simp add: fmt_plus_d_sign)
  have e: "fmt_plus_d 3 = ''+3''" "fmt_plus_d (- 1) = ''-1''" "fmt_plus_d 0 = ''+0''"
    by (simp_all add: fmt_plus_d_def digits.simps digit_def)
  from c j r m s e show ?thesis by blast
qed

lemma example_counts:
  "countBySeverity exampleBefore ''critical'' = 0" "countBySeverity exampleAfter ''critical'' = 1"
  "countBySeverity exampleBefore ''high'' = 1" "countBySeverity exampleAfter ''high'' = 2"
  "countBySeverity exampleBefore ''medium'' = 2" "countBySeverity exampleAfter ''medium'' = 0"
  "countBySeverity exampleBefore ''low'' = 1" "countBySeverity exampleAfter ''low'' = 1"
  by (simp_all add: countBySeverity_def findings_def images_def keys_def vulns_def
      exampleBefore_def exampleAfter_def image_def cve_def)

theorem severity_summary_witness:
  "\<exists>c. CompareHelmCharts (\<lambda>l. rev) exampleBefore exampleAfter = Inr c \<and>
     generateJSONSeverityCounts (\<lambda>l. rev) c =
       Inr [\<lparr>SeverityLabel = ''critical'', Current = 1, Previous = 0, Difference = 1\<rparr>,
            \<lparr>SeverityLabel = ''high'', Current = 2, Previous = 1, Difference = 1\<rparr>,
            \<lparr>SeverityLabel = ''medium'', Current = 0, Previous = 2, Difference = - 2\<rparr>,
            \<lparr>SeverityLabel = ''low'', Current = 1, Previous = 1, Difference = 0\<rparr>] \<and>
     (\<exists>rest. generateMarkdownReport (\<lambda>s. s) (\<lambda>l. rev) c =
        Inr (''## Helm Chart Comparison Report repo/shop@1.0 to repo/shop@2.0\<newline>\<newline>''
             @ ''### CVE by Severity\<newline>\<newline>''
             @ ''| Severity | Count | Prev Count | Difference |\<newline>''
             @ ''|----------|-------|------------|------------|\<newline>''
             @ ''| critical | 1 | 0 | +1 |\<newline>''
             @ ''| high | 2 | 1 | +1 |\<newline>''
             @ ''| medium | 0 | 2 | -2 |\<newline>''
             @ ''| low | 1 | 1 | +0 |\<newline>''
             @ ''\<newline>\<newline>### Images\<newline>\<newline>''
             @ rest))"
proof -
  from severity_summary[OF iteration_orders_rev iteration_orders_rev example_Inr(1,2), of "\<lambda>s. s"]
  obtain c imageRows where c: "CompareHelmCharts (\<lambda>l. rev) exampleBefore exampleAfter = Inr c"
    and j: "generateJSONSeverityCounts (\<lambda>l. rev) c =
       Inr (map (\<lambda>s. \<lparr>SeverityLabel = s, Current = countBySeverity exampleAfter s,
                      Previous = countBySeverity exampleBefore s,
                      Difference = countBySeverity exampleAfter s - countBySeverity exampleBefore s\<rparr>)
              [''critical'', ''high'', ''medium'', ''low''])"
    and m: "generateMarkdownReport (\<lambda>s. s) (\<lambda>l. rev) c =
        Inr (''## Helm Chart Comparison Report ''
             @ HelmRepo exampleBefore @ ''/'' @ Name exampleBefore @ ''@'' @ Version exampleBefore @ '' to ''
             @ HelmRepo exampleAfter @ ''/'' @ Name exampleAfter @ ''@'' @ Version exampleAfter @ ''\<newline>\<newline>''
             @ ''### CVE by Severity\<newline>\<newline>''
             @ ''| Severity | Count | Prev Count | Difference |\<newline>''
             @ ''|----------|-------|------------|------------|\<newline>''
             @ concat (map (\<lambda>s. ''| '' @ s @ '' | '' @ fmt_d (countBySeverity exampleAfter s) @ '' | ''
                              @ fmt_d (countBySeverity exampleBefore s) @ '' | ''
                              @ fmt_plus_d (countBySeverity exampleAfter s - countBySeverity exampleBefore s)
                              @ '' |\<newline>'')
                        [''critical'', ''high'', ''medium'', ''low''])
             @ ''\<newline>\<newline>''
             @ ''### Images\<newline>\<newline>''
             @ ''| Image Name | Status | Before Repo | After Repo | Before Tag | After Tag |\<newline>''
             @ ''|------------|--------|-------------|------------|------------|-----------|\<newline>''
             @ Join imageRows ''\<newline>'' @ ''\<newline>\<newline>''
             @ ''### Unchanged CVEs\<newline>\<newline>''
             @ sortAndFormatCVEs (\<lambda>s. s) (within ''443'' (\<lambda>l. rev)) (UnchangedCVEs c) @ ''\<newline>\<newline>''
             @ ''### Added CVEs\<newline>\<newline>''
             @ sortAndFormatCVEs (\<lambda>s. s) (within ''447'' (\<lambda>l. rev)) (AddedCVEs c) @ ''\<newline>\<newline>''
             @ ''### Removed CVEs\<newline>\<newline>''
             @ sortAndFormatCVEs (\<lambda>s. s) (within ''451'' (\<lambda>l. rev)) (RemovedCVEs c) @ ''\<newline>'')"
    by blast
  have h: "HelmRepo exampleBefore = ''repo''" "Name exampleBefore = ''shop''" "Version exampleBefore = ''1.0''"
    "HelmRepo exampleAfter = ''repo''" "Name exampleAfter = ''shop''" "Version exampleAfter = ''2.0''"
    by (simp_all add: exampleBefore_def exampleAfter_def)
  from j have "generateJSONSeverityCounts (\<lambda>l. rev) c =
       Inr [\<lparr>SeverityLabel = ''critical'', Current = 1, Previous = 0, Difference = 1\<rparr>,
            \<lparr>SeverityLabel = ''high'', Current = 2, Previous = 1, Difference = 1\<rparr>,
            \<lparr>SeverityLabel = ''medium'', Current = 0, Previous = 2, Difference = - 2\<rparr>,
            \<lparr>SeverityLabel = ''low'', Current = 1, Previous = 1, Difference = 0\<rparr>]"
    by (simp add: example_counts)
  moreover from m have "\<exists>rest. generateMarkdownReport (\<lambda>s. s) (\<lambda>l. rev) c =
        Inr (''## Helm Chart Comparison Report repo/shop@1.0 to repo/shop@2.0\<newline>\<newline>''
             @ ''### CVE by Severity\<newline>\<newline>''
             @ ''| Severity | Count | Prev Count | Difference |\<newline>''
             @ ''|----------|-------|------------|------------|\<newline>''
             @ ''| critical | 1 | 0 | +1 |\<newline>''
             @ ''| high | 2 | 1 | +1 |\<newline>''
             @ ''| medium | 0 | 2 | -2 |\<newline>''
             @ ''| low | 1 | 1 | +0 |\<newline>''
             @ ''\<newline>\<newline>### Images\<newline>\<newline>''
             @ rest)"
    by (simp add: example_counts h fmt_d_def fmt_plus_d_def digits.simps digit_def)
  ultimately show ?thesis using c by blast
qed

text \<open>
  C10 at the example charts: the image \<open>db\<close> keeps its tag and moves from \<open>docker.io\<close> to
  \<open>ghcr.io\<close>. The Markdown row reports \<open>ghcr.io\<close> as the after repository (\<open>images[1]\<close>); the
  JSON entry reports \<open>docker.io\<close>, the before image's (\<open>images[0]\<close>, lines 595 and 597).
\<close>

theorem json_unchanged_after_repo:
  "\<exists>c. CompareHelmCharts (\<lambda>l ks. ks) exampleBefore exampleAfter = Inr c \<and>
     map_of (UnChangedImages c) ''db'' =
       Some [Some (image ''docker.io'' ''db'' ''v5'' [cve ''CVE-3'' ''medium'']),
             Some (image ''ghcr.io'' ''db'' ''v5'' [cve ''CVE-4'' ''low''])] \<and>
     markdownImageRows (\<lambda>l ks. ks) c =
       Inr [''| web | Added | - | docker.io | - | v1 |'',
            ''| sidecar | Removed | docker.io | - | v1 | - |'',
            ''| app | Changed | docker.io | docker.io | v1 | v2 |'',
            ''| db | Unchanged | docker.io | ghcr.io | v5 | v5 |''] \<and>
     generateJSONImageChanges (\<lambda>l ks. ks) c =
       Inr [\<lparr>ChangeName = ''web'', Status = ''Added'', BeforeRepo = [],
              AfterRepo = ''docker.io'', BeforeTag = [], AfterTag = ''v1''\<rparr>,
            \<lparr>ChangeName = ''sidecar'', Status = ''Removed'', BeforeRepo = ''docker.io'',
              AfterRepo = [], BeforeTag = ''v1'', AfterTag = []\<rparr>,
            \<lparr>ChangeName = ''app'', Status = ''Changed'', BeforeRepo = ''docker.io'',
              AfterRepo = ''docker.io'', BeforeTag = ''v1'', AfterTag = ''v2''\<rparr>,
            \<lparr>ChangeName = ''db'', Status = ''Unchanged'', BeforeRepo = ''docker.io'',
              AfterRepo = ''docker.io'', BeforeTag = ''v5'', AfterTag = ''v5''\<rparr>]"
  by (simp add: compare_defs render_defs exampleBefore_def exampleAfter_def image_def cve_def)









lemma stringLess_less: "stringLess xs ys \<longleftrightarrow> xs < ys"
  by (induction xs ys rule: stringLess.induct) (auto simp: less_char_def)

lemma cveLess_key: "cveLess a b \<longleftrightarrow> cveKey a < cveKey b"
  by (auto simp: cveLess_def cveKey_def stringLess_less less_prod_def)

lemma insertCVE_insort: "insertCVE c ds = insort_key cveKey c ds"
  by (induction ds) (auto simp: cveLess_key)

lemma sortCVEs_sort: "sortCVEs cs = sort_key cveKey cs"
proof -
  have "insertCVE = insort_key cveKey"
    by (intro ext) (rule insertCVE_insort)
  then show ?thesis by (simp add: sortCVEs_def sort_key_def)
qed

lemma fold_collect:
  "fold (\<lambda>(imageName, vuln) (images, severity). (images @ [imageName], GetSeverity vuln)) es (acc, s) =
     (acc @ map fst es, if es = [] then s else GetSeverity (snd (last es)))"
  by (induction es arbitrary: acc s) auto

lemma collectCVEs_eq: "collectCVEs ord cves = map (mkRow ord) (ranged (ord [''486'']) cves)"
  by (auto simp: collectCVEs_def mkRow_def fold_collect)

lemma mkRow_id: "cveID (mkRow ord e) = fst e"
  by (cases e) (simp add: mkRow_def)

lemma mset_iteration:
  assumes "iteration_order o1" and "distinct ks"
  shows "mset (o1 ks) = mset ks"
  using assms by (simp add: iteration_order_def set_eq_iff_mset_eq_distinct[symmetric])

lemma ranged_Nil_iff:
  assumes "iteration_order o1"
  shows "ranged o1 m = [] \<longleftrightarrow> m = []"
proof -
  have "set (o1 (keys m)) = set (keys m)"
    using assms keys_distinct[of m] by (simp add: iteration_order_def)
  then have "o1 (keys m) = [] \<longleftrightarrow> keys m = []"
    by (metis set_empty)
  then show ?thesis
    by (simp add: ranged_eq[OF assms] keys_def)
qed

lemma collectCVEs_ids:
  assumes "iteration_orders ord"
  shows "map cveID (collectCVEs ord cves) = ord [''486''] (keys cves)"
  by (simp add: collectCVEs_eq comp_def mkRow_id ranged_fst[OF iteration_ordersD[OF assms], symmetric])

lemma sorted_rows_ids:
  assumes "iteration_orders ord"
  shows "mset (map cveID (sortCVEs (collectCVEs ord cves))) = mset (keys cves)"
    and "distinct (map cveID (sortCVEs (collectCVEs ord cves)))"
proof -
  have "mset (map cveID (sortCVEs (collectCVEs ord cves))) = mset (map cveID (collectCVEs ord cves))"
    by (simp add: sortCVEs_sort)
  also have "\<dots> = mset (keys cves)"
    by (simp only: collectCVEs_ids[OF assms] mset_iteration[OF iteration_ordersD[OF assms] keys_distinct])
  finally show m: "mset (map cveID (sortCVEs (collectCVEs ord cves))) = mset (keys cves)" .
  show "distinct (map cveID (sortCVEs (collectCVEs ord cves)))"
    using m keys_distinct[of cves] by (metis mset_eq_imp_distinct_iff)
qed

lemma row_of_table:
  assumes ios: "iteration_orders ord" and r: "r \<in> set (sortCVEs (collectCVEs ord cves))"
  obtains inner where "map_of cves (cveID r) = Some inner"
    and "r = mkRow ord (cveID r, inner)"
proof -
  from r have "r \<in> set (collectCVEs ord cves)"
    by (simp add: sortCVEs_sort)
  then obtain i inner where e: "(i, inner) \<in> set (ranged (ord [''486'']) cves)" and r': "r = mkRow ord (i, inner)"
    by (auto simp: collectCVEs_eq)
  from ranged_entry[OF iteration_ordersD[OF ios] e] have "map_of cves i = Some inner" .
  moreover have "cveID r = i" by (simp add: r' mkRow_id)
  ultimately show ?thesis using that r' by simp
qed

lemma rows_sorted:
  assumes ios: "iteration_orders ord"
  shows "sorted_wrt cveLess (sortCVEs (collectCVEs ord cves))"
proof -
  let ?rows = "sortCVEs (collectCVEs ord cves)"
  have s: "sorted (map cveKey ?rows)"
    by (simp add: sortCVEs_sort)
  have "inj_on cveKey (set ?rows)"
  proof (rule inj_onI)
    fix a b assume a: "a \<in> set ?rows" and b: "b \<in> set ?rows" and k: "cveKey a = cveKey b"
    then have "cveID a = cveID b" by (simp add: cveKey_def)
    with sorted_rows_ids(2)[OF ios, of cves] a b show "a = b"
      by (meson distinct_map inj_onD)
  qed
  moreover have "distinct ?rows"
    using sorted_rows_ids(2)[OF ios, of cves] by (simp add: distinct_map)
  ultimately have "distinct (map cveKey ?rows)"
    by (simp add: distinct_map)
  with s have "sorted_wrt (<) (map cveKey ?rows)"
    by (simp add: strict_sorted_iff)
  then show ?thesis
    by (simp add: sorted_wrt_map cveLess_key[abs_def])
qed

lemma cveRowsFrom_table:
  assumes ios: "iteration_orders ord"
  shows "cveRowsFrom ord cves (sortCVEs (collectCVEs ord cves))"
proof -
  have "\<exists>inner. map_of cves (cveID r) = Some inner \<and>
        cveImages r = map fst (ranged (ord [''489'', cveID r]) inner) \<and>
        (inner \<noteq> [] \<longrightarrow>
           cveSeverity r = GetSeverity (snd (last (ranged (ord [''489'', cveID r]) inner))))"
    if "r \<in> set (sortCVEs (collectCVEs ord cves))" for r
  proof -
    from row_of_table[OF ios that] obtain inner where
      i: "map_of cves (cveID r) = Some inner" and r: "r = mkRow ord (cveID r, inner)" by blast
    have "cveImages r = map fst (ranged (ord [''489'', cveID r]) inner)"
      by (subst r) (simp add: mkRow_def)
    moreover have "cveSeverity r = GetSeverity (snd (last (ranged (ord [''489'', cveID r]) inner)))"
      if "inner \<noteq> []"
      using that ranged_Nil_iff[OF iteration_ordersD[OF ios], of "[''489'', cveID r]" inner]
      by (subst r) (simp add: mkRow_def)
    ultimately show ?thesis using i by blast
  qed
  then show ?thesis
    unfolding cveRowsFrom_def using rows_sorted[OF ios] sorted_rows_ids(1)[OF ios] by blast
qed

lemma rows_keys_distinct:
  assumes ios: "iteration_orders ord"
  shows "distinct (map cveKey (sortCVEs (collectCVEs ord cves)))"
proof -
  have "map cveID (sortCVEs (collectCVEs ord cves)) = map snd (map cveKey (sortCVEs (collectCVEs ord cves)))"
    by (simp add: cveKey_def comp_def)
  with sorted_rows_ids(2)[OF ios, of cves] show ?thesis
    by (metis distinct_map)
qed

lemma mkRow_uniform:
  assumes io: "iteration_orders ord" and u: "uniformSeverity cves"
    and m: "map_of cves i = Some inner"
  shows "cveSeverity (mkRow ord (i, inner)) = (case inner of [] \<Rightarrow> [] | e # _ \<Rightarrow> GetSeverity (snd e))"
proof (cases inner)
  case Nil
  then show ?thesis by (simp add: mkRow_def ranged_def keys_def)
next
  case (Cons e rest)
  obtain n v where e: "e = (n, v)" by (cases e)
  let ?es = "ranged (ord [''489'', i]) inner"
  have ne: "?es \<noteq> []"
    using ranged_Nil_iff[OF iteration_ordersD[OF io], of "[''489'', i]" inner] Cons by simp
  then have "last ?es \<in> set ?es" by simp
  then have "map_of inner (fst (last ?es)) = Some (snd (last ?es))"
    using ranged_entry[OF iteration_ordersD[OF io], of "fst (last ?es)" "snd (last ?es)"] by simp
  moreover have "map_of inner n = Some v" by (simp add: Cons e)
  ultimately have "GetSeverity (snd (last ?es)) = GetSeverity v"
    using u m unfolding uniformSeverity_def by blast
  with ne show ?thesis by (simp add: mkRow_def Cons e)
qed

lemma mkRow_images:
  assumes io: "iteration_orders ord"
  shows "mset (cveImages (mkRow ord (i, inner))) = mset (keys inner)"
  by (simp add: mkRow_def ranged_fst[OF iteration_ordersD[OF io]]
      mset_iteration[OF iteration_ordersD[OF io] keys_distinct] del: mset_map)

lemma rows_agree:
  assumes o1: "iteration_orders o1" and o2: "iteration_orders o2" and u: "uniformSeverity cves"
  shows "cveRowsAgree (sortCVEs (collectCVEs o1 cves)) (sortCVEs (collectCVEs o2 cves))"
proof -
  let ?r1 = "sortCVEs (collectCVEs o1 cves)" and ?r2 = "sortCVEs (collectCVEs o2 cves)"
  let ?sev = "\<lambda>i. case the (map_of cves i) of [] \<Rightarrow> [] | e # _ \<Rightarrow> GetSeverity (snd e)"
  let ?img = "\<lambda>i. mset (keys (the (map_of cves i)))"
  let ?K = "\<lambda>i. (severityRank (?sev i), i)"
  have sev: "cveSeverity r = ?sev (cveID r)" and img: "mset (cveImages r) = ?img (cveID r)"
    if "iteration_orders ord" and "r \<in> set (sortCVEs (collectCVEs ord cves))" for r ord
  proof -
    from row_of_table[OF that] obtain inner where
      i: "map_of cves (cveID r) = Some inner" and r: "r = mkRow ord (cveID r, inner)" by blast
    show "cveSeverity r = ?sev (cveID r)"
      using mkRow_uniform[OF that(1) u i] r i by simp
    show "mset (cveImages r) = ?img (cveID r)"
      using mkRow_images[OF that(1), of "cveID r" inner] r i by simp
  qed
  have key: "map cveKey (sortCVEs (collectCVEs ord cves)) = map ?K (map cveID (sortCVEs (collectCVEs ord cves)))"
    if "iteration_orders ord" for ord
    using sev[OF that] by (simp add: cveKey_def)
  have ids: "set (map cveID (sortCVEs (collectCVEs ord cves))) = set (keys cves)"
    if "iteration_orders ord" for ord
    using sorted_rows_ids(1)[OF that, of cves] by (rule mset_eq_setD)
  have "set (map cveKey ?r1) = set (map cveKey ?r2)"
    unfolding key[OF o1] key[OF o2] set_map[of ?K] ids[OF o1] ids[OF o2] ..
  moreover have "sorted (map cveKey ?r1)" "sorted (map cveKey ?r2)"
    by (simp_all add: sortCVEs_sort)
  ultimately have k: "map cveKey ?r1 = map cveKey ?r2"
    using rows_keys_distinct[OF o1, of cves] rows_keys_distinct[OF o2, of cves]
    by (intro sorted_distinct_set_unique)
  then have "map snd (map cveKey ?r1) = map snd (map cveKey ?r2)" by simp
  then have i: "map cveID ?r1 = map cveID ?r2" by (simp add: cveKey_def comp_def)
  have "map cveSeverity (sortCVEs (collectCVEs ord cves)) = map ?sev (map cveID (sortCVEs (collectCVEs ord cves)))"
    if "iteration_orders ord" for ord
    using sev[OF that] by simp
  from this[OF o1] this[OF o2] i have s: "map cveSeverity ?r1 = map cveSeverity ?r2" by simp
  have "map (\<lambda>r. mset (cveImages r)) (sortCVEs (collectCVEs ord cves)) =
        map ?img (map cveID (sortCVEs (collectCVEs ord cves)))"
    if "iteration_orders ord" for ord
    using img[OF that] by simp
  from this[OF o1] this[OF o2] i
  have "map (\<lambda>r. mset (cveImages r)) ?r1 = map (\<lambda>r. mset (cveImages r)) ?r2" by simp
  with i s show ?thesis by (simp add: cveRowsAgree_def)
qed

lemma collect_map:
  "collect f xs = Inr ys \<Longrightarrow> map Inr ys = map f xs"
  by (induction xs arbitrary: ys) (auto split: sum.splits)

lemma markdownImageRows_order:
  assumes "markdownImageRows ord c = Inr rows"
  shows "map Inr rows =
     map mdAdded (ranged (ord [''418'']) (AddedImages c))
     @ map mdRemoved (ranged (ord [''423'']) (RemovedImages c))
     @ map (mdPair ''Changed'') (ranged (ord [''428'']) (ChangedImages c))
     @ map (mdPair ''Unchanged'') (ranged (ord [''433'']) (UnChangedImages c))"
  using assms by (auto simp: markdownImageRows_def collect_map split: sum.splits)

lemma generateJSONImageChanges_order:
  assumes "generateJSONImageChanges ord c = Inr changes"
  shows "map Inr changes =
     map jsonAdded (ranged (ord [''558'']) (AddedImages c))
     @ map jsonRemoved (ranged (ord [''568'']) (RemovedImages c))
     @ map jsonChanged (ranged (ord [''578'']) (ChangedImages c))
     @ map jsonUnchanged (ranged (ord [''590'']) (UnChangedImages c))"
  using assms by (auto simp: generateJSONImageChanges_def collect_map split: sum.splits)

text \<open>
  C8 fails as stated: \<open>exampleShared\<close> compared with \<open>exampleNone\<close> has the removed images
  \<open>a\<close> and \<open>b\<close>, which share \<open>CVE-1\<close> with the severities high and low. Rendered under two
  iterations, the Markdown reports differ in the order of the image rows, in the order of
  the names under \<open>Affected Images\<close>, in the severity printed for \<open>CVE-1\<close> (that of the image
  ranged over last) and with it in the order of the severity bands; the JSON image-change
  lists differ in the order of their entries. This holds whatever \<open>strings.Title\<close> does.
\<close>

theorem render_order_counterexample:
  "\<exists>c. CompareHelmCharts (\<lambda>l ks. ks) exampleShared exampleNone = Inr c \<and>
     (\<forall>title. generateMarkdownReport title (\<lambda>l ks. ks) c =
       Inr (''## Helm Chart Comparison Report repo/shop@0.1 to repo/shop@3.0\<newline>\<newline>''
            @ ''### CVE by Severity\<newline>\<newline>''
            @ ''| Severity | Count | Prev Count | Difference |\<newline>''
            @ ''|----------|-------|------------|------------|\<newline>''
            @ ''| critical | 0 | 0 | +0 |\<newline>| high | 0 | 1 | -1 |\<newline>''
            @ ''| medium | 0 | 1 | -1 |\<newline>| low | 0 | 1 | -1 |\<newline>\<newline>\<newline>''
            @ ''### Images\<newline>\<newline>''
            @ ''| Image Name | Status | Before Repo | After Repo | Before Tag | After Tag |\<newline>''
            @ ''|------------|--------|-------------|------------|------------|-----------|\<newline>''
            @ ''| a | Removed | r | - | v1 | - |\<newline>''
            @ ''| b | Removed | r | - | v1 | - |\<newline>\<newline>''
            @ ''### Unchanged CVEs\<newline>\<newline>No CVEs found.\<newline>\<newline>\<newline>\<newline>''
            @ ''### Added CVEs\<newline>\<newline>No CVEs found.\<newline>\<newline>\<newline>\<newline>''
            @ ''### Removed CVEs\<newline>\<newline>''
            @ cveTableHeader
            @ ''#### '' @ title ''medium'' @ ''\<newline>'' @ cveTableHeader
            @ ''| CVE-5 | medium | b |\<newline>''
            @ ''\<newline>#### '' @ title ''low'' @ ''\<newline>'' @ cveTableHeader
            @ ''| CVE-1 | low | a, b |\<newline>''
            @ ''\<newline>'')) \<and>
     (\<forall>title. generateMarkdownReport title (\<lambda>l. rev) c =
       Inr (''## Helm Chart Comparison Report repo/shop@0.1 to repo/shop@3.0\<newline>\<newline>''
            @ ''### CVE by Severity\<newline>\<newline>''
            @ ''| Severity | Count | Prev Count | Difference |\<newline>''
            @ ''|----------|-------|------------|------------|\<newline>''
            @ ''| critical | 0 | 0 | +0 |\<newline>| high | 0 | 1 | -1 |\<newline>''
            @ ''| medium | 0 | 1 | -1 |\<newline>| low | 0 | 1 | -1 |\<newline>\<newline>\<newline>''
            @ ''### Images\<newline>\<newline>''
            @ ''| Image Name | Status | Before Repo | After Repo | Before Tag | After Tag |\<newline>''
            @ ''|------------|--------|-------------|------------|------------|-----------|\<newline>''
            @ ''| b | Removed | r | - | v1 | - |\<newline>''
            @ ''| a | Removed | r | - | v1 | - |\<newline>\<newline>''
            @ ''### Unchanged CVEs\<newline>\<newline>No CVEs found.\<newline>\<newline>\<newline>\<newline>''
            @ ''### Added CVEs\<newline>\<newline>No CVEs found.\<newline>\<newline>\<newline>\<newline>''
            @ ''### Removed CVEs\<newline>\<newline>''
            @ cveTableHeader
            @ ''#### '' @ title ''high'' @ ''\<newline>'' @ cveTableHeader
            @ ''| CVE-1 | high | b, a |\<newline>''
            @ ''\<newline>#### '' @ title ''medium'' @ ''\<newline>'' @ cveTableHeader
            @ ''| CVE-5 | medium | b |\<newline>''
            @ ''\<newline>'')) \<and>
     (\<forall>title. generateMarkdownReport title (\<lambda>l ks. ks) c \<noteq> generateMarkdownReport title (\<lambda>l. rev) c) \<and>
     generateJSONImageChanges (\<lambda>l ks. ks) c \<noteq> generateJSONImageChanges (\<lambda>l. rev) c"
  by (simp add: compare_defs render_defs exampleShared_def exampleNone_def image_def cve_def)

text \<open>
  C8, amended. For the comparison of two charts without nil entries and any two iterations
  of the renderer:
  \<^item> the severity summary of both reports is the same;
  \<^item> the rows of the Markdown images table are the same rows, and the entries of the JSON
    image-change list the same entries, up to their order; they are written in the order
    in which \<open>AddedImages\<close>, \<open>RemovedImages\<close>, \<open>ChangedImages\<close> and \<open>UnChangedImages\<close> are
    ranged over, one map after the other, and are not sorted;
  \<^item> each CVE table is \<open>No CVEs found.\<close> for an empty map and otherwise the text written
    from its rows, with a heading at every change of severity; the rows are sorted by
    severity rank and CVE ID, one row for each
    CVE ID of the map, with the names under \<open>Affected Images\<close> in the order in which the
    inner map is ranged over and with the severity of the finding ranged over last; when
    all findings of each CVE ID in the table carry one severity, the two renderings have
    the same rows with the same IDs and severities in the same order, and the same names
    in every row up to their order.
\<close>

theorem render_up_to_iteration_order:
  assumes "iteration_orders ord" and "iteration_orders o1" and "iteration_orders o2"
    and "None \<notin> set (ContainsImages before)" and "None \<notin> set (ContainsImages after)"
  shows "\<exists>c. CompareHelmCharts ord before after = Inr c \<and>
     generateJSONSeverityCounts o1 c = generateJSONSeverityCounts o2 c \<and>
     markdownSeverityTable o1 c = markdownSeverityTable o2 c \<and>
     (\<exists>rows1 rows2. markdownImageRows o1 c = Inr rows1 \<and> markdownImageRows o2 c = Inr rows2 \<and>
        mset rows1 = mset rows2 \<and>
        map Inr rows1 =
          map mdAdded (ranged (o1 [''418'']) (AddedImages c))
          @ map mdRemoved (ranged (o1 [''423'']) (RemovedImages c))
          @ map (mdPair ''Changed'') (ranged (o1 [''428'']) (ChangedImages c))
          @ map (mdPair ''Unchanged'') (ranged (o1 [''433'']) (UnChangedImages c)) \<and>
        map Inr rows2 =
          map mdAdded (ranged (o2 [''418'']) (AddedImages c))
          @ map mdRemoved (ranged (o2 [''423'']) (RemovedImages c))
          @ map (mdPair ''Changed'') (ranged (o2 [''428'']) (ChangedImages c))
          @ map (mdPair ''Unchanged'') (ranged (o2 [''433'']) (UnChangedImages c))) \<and>
     (\<exists>changes1 changes2. generateJSONImageChanges o1 c = Inr changes1 \<and>
        generateJSONImageChanges o2 c = Inr changes2 \<and> mset changes1 = mset changes2 \<and>
        map Inr changes1 =
          map jsonAdded (ranged (o1 [''558'']) (AddedImages c))
          @ map jsonRemoved (ranged (o1 [''568'']) (RemovedImages c))
          @ map jsonChanged (ranged (o1 [''578'']) (ChangedImages c))
          @ map jsonUnchanged (ranged (o1 [''590'']) (UnChangedImages c)) \<and>
        map Inr changes2 =
          map jsonAdded (ranged (o2 [''558'']) (AddedImages c))
          @ map jsonRemoved (ranged (o2 [''568'']) (RemovedImages c))
          @ map jsonChanged (ranged (o2 [''578'']) (ChangedImages c))
          @ map jsonUnchanged (ranged (o2 [''590'']) (UnChangedImages c))) \<and>
     (\<forall>cves \<in> {UnchangedCVEs c, AddedCVEs c, RemovedCVEs c}. \<forall>t.
        (\<forall>title. \<forall>p \<in> {o1, o2}. sortAndFormatCVEs title (within t p) cves =
           (if keys cves = [] then ''No CVEs found.\<newline>\<newline>''
            else formatCVEs title (sortCVEs (collectCVEs (within t p) cves)))) \<and>
        cveRowsFrom (within t o1) cves (sortCVEs (collectCVEs (within t o1) cves)) \<and>
        cveRowsFrom (within t o2) cves (sortCVEs (collectCVEs (within t o2) cves)) \<and>
        (uniformSeverity cves \<longrightarrow>
           cveRowsAgree (sortCVEs (collectCVEs (within t o1) cves))
                        (sortCVEs (collectCVEs (within t o2) cves))))"
proof -
  from assms(4,5) obtain c where c: "CompareHelmCharts ord before after = Inr c"
    using CompareHelmCharts_Inr[of ord before after] by blast
  note ba = Compare_Before_After[OF c]
  have nn: "None \<notin> set (ContainsImages (Before c))" "None \<notin> set (ContainsImages (After c))"
    using assms(4,5) by (simp_all add: ba)
  have 1: "generateJSONSeverityCounts o1 c = generateJSONSeverityCounts o2 c"
    by (simp add: generateJSONSeverityCounts_eq[OF assms(2) nn] generateJSONSeverityCounts_eq[OF assms(3) nn])
  have 2: "markdownSeverityTable o1 c = markdownSeverityTable o2 c"
    by (simp only: markdownSeverityTable_eq[OF assms(2) nn] markdownSeverityTable_eq[OF assms(3) nn])
  have ms: "mset (ranged (o1 l) m) = mset (ranged (o2 l) m)" for l and m :: "ContainerImage option list gomap"
    by (rule mset_ranged[OF iteration_ordersD[OF assms(2)] iteration_ordersD[OF assms(3)]])
  let ?R = "\<lambda>p. map (projr \<circ> mdAdded) (ranged (p [''418'']) (AddedImages c))
          @ map (projr \<circ> mdRemoved) (ranged (p [''423'']) (RemovedImages c))
          @ map (projr \<circ> mdPair ''Changed'') (ranged (p [''428'']) (ChangedImages c))
          @ map (projr \<circ> mdPair ''Unchanged'') (ranged (p [''433'']) (UnChangedImages c))"
  have r1: "markdownImageRows o1 c = Inr (?R o1)" and r2: "markdownImageRows o2 c = Inr (?R o2)"
    by (rule markdownImageRows_produced[OF assms(1) c assms(2)])
       (rule markdownImageRows_produced[OF assms(1) c assms(3)])
  have rm: "mset (?R o1) = mset (?R o2)"
    by (simp add: ms)
  note 3 = r1 r2 rm markdownImageRows_order[OF r1] markdownImageRows_order[OF r2]
  let ?J = "\<lambda>p. map (projr \<circ> jsonAdded) (ranged (p [''558'']) (AddedImages c))
          @ map (projr \<circ> jsonRemoved) (ranged (p [''568'']) (RemovedImages c))
          @ map (projr \<circ> jsonChanged) (ranged (p [''578'']) (ChangedImages c))
          @ map (projr \<circ> jsonUnchanged) (ranged (p [''590'']) (UnChangedImages c))"
  have j1: "generateJSONImageChanges o1 c = Inr (?J o1)" and j2: "generateJSONImageChanges o2 c = Inr (?J o2)"
    by (rule generateJSONImageChanges_produced[OF assms(1) c assms(2)])
       (rule generateJSONImageChanges_produced[OF assms(1) c assms(3)])
  have jm: "mset (?J o1) = mset (?J o2)"
    by (simp add: ms)
  note 4 = j1 j2 jm generateJSONImageChanges_order[OF j1] generateJSONImageChanges_order[OF j2]
  have 6: "sortAndFormatCVEs title (within t p) cves =
           (if keys cves = [] then ''No CVEs found.\<newline>\<newline>''
            else formatCVEs title (sortCVEs (collectCVEs (within t p) cves)))" for title t p cves
    by (simp add: sortAndFormatCVEs_def)
  have 5: "cveRowsFrom (within t o1) cves (sortCVEs (collectCVEs (within t o1) cves)) \<and>
        cveRowsFrom (within t o2) cves (sortCVEs (collectCVEs (within t o2) cves)) \<and>
        (uniformSeverity cves \<longrightarrow>
           cveRowsAgree (sortCVEs (collectCVEs (within t o1) cves))
                        (sortCVEs (collectCVEs (within t o2) cves)))" for t cves
    using cveRowsFrom_table[OF iteration_orders_within[OF assms(2)]]
      cveRowsFrom_table[OF iteration_orders_within[OF assms(3)]]
      rows_agree[OF iteration_orders_within[OF assms(2)] iteration_orders_within[OF assms(3)]]
    by blast
  from 5 6 have 7: "\<forall>cves \<in> {UnchangedCVEs c, AddedCVEs c, RemovedCVEs c}. \<forall>t.
        (\<forall>title. \<forall>p \<in> {o1, o2}. sortAndFormatCVEs title (within t p) cves =
           (if keys cves = [] then ''No CVEs found.\<newline>\<newline>''
            else formatCVEs title (sortCVEs (collectCVEs (within t p) cves)))) \<and>
        cveRowsFrom (within t o1) cves (sortCVEs (collectCVEs (within t o1) cves)) \<and>
        cveRowsFrom (within t o2) cves (sortCVEs (collectCVEs (within t o2) cves)) \<and>
        (uniformSeverity cves \<longrightarrow>
           cveRowsAgree (sortCVEs (collectCVEs (within t o1) cves))
                        (sortCVEs (collectCVEs (within t o2) cves)))"
    by blast
  from c 1 2 3 4 7 show ?thesis by blast
qed

theorem render_up_to_iteration_order_witness:
  "\<exists>c. CompareHelmCharts (\<lambda>l ks. ks) exampleUniform exampleNone = Inr c \<and>
     RemovedCVEs c = [(''CVE-1'', [(''a'', cve ''CVE-1'' ''high''), (''b'', cve ''CVE-1'' ''high'')])] \<and>
     markdownSeverityTable (\<lambda>l ks. ks) c = markdownSeverityTable (\<lambda>l. rev) c \<and>
     (\<exists>rows1 rows2. markdownImageRows (\<lambda>l ks. ks) c = Inr rows1 \<and>
        markdownImageRows (\<lambda>l. rev) c = Inr rows2 \<and> mset rows1 = mset rows2) \<and>
     cveRowsAgree (sortCVEs (collectCVEs (within ''451'' (\<lambda>l ks. ks)) (RemovedCVEs c)))
                  (sortCVEs (collectCVEs (within ''451'' (\<lambda>l. rev)) (RemovedCVEs c)))"
proof -
  have n: "None \<notin> set (ContainsImages exampleUniform)" "None \<notin> set (ContainsImages exampleNone)"
    by (simp_all add: exampleUniform_def exampleNone_def)
  from render_up_to_iteration_order[OF iteration_orders_id iteration_orders_id iteration_orders_rev n]
  obtain c where c: "CompareHelmCharts (\<lambda>l ks. ks) exampleUniform exampleNone = Inr c"
    and s: "markdownSeverityTable (\<lambda>l ks. ks) c = markdownSeverityTable (\<lambda>l. rev) c"
    and r: "\<exists>rows1 rows2. markdownImageRows (\<lambda>l ks. ks) c = Inr rows1 \<and>
        markdownImageRows (\<lambda>l. rev) c = Inr rows2 \<and> mset rows1 = mset rows2"
    and t: "\<forall>cves \<in> {UnchangedCVEs c, AddedCVEs c, RemovedCVEs c}. \<forall>t.
        (\<forall>title. \<forall>p \<in> {\<lambda>l ks. ks, \<lambda>l. rev}. sortAndFormatCVEs title (within t p) cves =
           (if keys cves = [] then ''No CVEs found.\<newline>\<newline>''
            else formatCVEs title (sortCVEs (collectCVEs (within t p) cves)))) \<and>
        cveRowsFrom (within t (\<lambda>l ks. ks)) cves (sortCVEs (collectCVEs (within t (\<lambda>l ks. ks)) cves)) \<and>
        cveRowsFrom (within t (\<lambda>l. rev)) cves (sortCVEs (collectCVEs (within t (\<lambda>l. rev)) cves)) \<and>
        (uniformSeverity cves \<longrightarrow>
           cveRowsAgree (sortCVEs (collectCVEs (within t (\<lambda>l ks. ks)) cves))
                        (sortCVEs (collectCVEs (within t (\<lambda>l. rev)) cves)))"
    by blast
  have rc: "RemovedCVEs c = [(''CVE-1'', [(''a'', cve ''CVE-1'' ''high''), (''b'', cve ''CVE-1'' ''high'')])]"
    using c by (auto simp: compare_defs exampleUniform_def exampleNone_def image_def cve_def)
  have "uniformSeverity (RemovedCVEs c)"
    unfolding rc uniformSeverity_def by (auto split: if_splits)
  with t have "cveRowsAgree (sortCVEs (collectCVEs (within ''451'' (\<lambda>l ks. ks)) (RemovedCVEs c)))
                  (sortCVEs (collectCVEs (within ''451'' (\<lambda>l. rev)) (RemovedCVEs c)))"
    by blast
  with c rc s r show ?thesis by blast
qed

end
